theory Spec2Isabelle
  imports Main "HOL-Library.Multiset"
begin

section \<open>The NASCON schema: tables as lists of rows\<close>

text \<open>
  The engine lives in \<^verbatim>\<open>NASCON.sql\<close> (tables, triggers, the stored procedure
  \<^verbatim>\<open>AssignAccommodation\<close>) and in the Express routes that issue SQL against it.
  A table is a list of rows in the order the storage engine scans them; a nullable
  column is an \<open>option\<close>; an \<^verbatim>\<open>ENUM\<close> column is a datatype; \<^verbatim>\<open>INT\<close> keys are
  naturals, dates and timestamps are integers (day or second numbers), money is an
  integer number of hundredths.
\<close>

subsection \<open>Accommodations and AccommodationRequests\<close>

datatype availability = Available | Unavailable | Maintenance

datatype request_status = Pending | Approved | Rejected | Cancelled | Waitlisted

text \<open>
  \<^verbatim>\<open>AssignmentNotes\<close> and \<^verbatim>\<open>p_Message\<close> are built with \<^verbatim>\<open>CONCAT\<close> from fixed
  text and ids; each constructor stands for one of the texts and carries the ids.
\<close>

datatype assignment_note =
    Seeded_note string
  | Automatically_assigned nat
  | No_suitable_accommodation_available

datatype assign_message =
    Initialization_error
  | Request_not_found nat
  | Already_processed nat request_status
  | Accommodation_assigned nat nat
  | No_suitable_accommodation_found nat

record accommodation =
  a_AccommodationID :: nat
  a_Name :: string
  a_Capacity :: int
  a_Availability :: availability

record accommodation_request =
  ar_RequestID :: nat
  ar_UserID :: nat
  ar_CheckInDate :: int
  ar_CheckOutDate :: int
  ar_NumberOfPeople :: int
  ar_Status :: request_status
  ar_AssignedAccommodationID :: "nat option"
  ar_AssignmentNotes :: "assignment_note option"

text \<open>
  The overlap test the allocation property is stated with: the half-open ranges
  \<open>[a,b)\<close> and \<open>[c,d)\<close> overlap iff \<open>a < d\<close> and \<open>c < b\<close>. The procedure does not
  call it; its own test is in \<open>occupied\<close> below.
\<close>

definition ranges_overlap :: "int \<Rightarrow> int \<Rightarrow> int \<Rightarrow> int \<Rightarrow> bool" where
  "ranges_overlap a b c d \<longleftrightarrow> a < d \<and> c < b"

text \<open>
  The correlated subquery of \<^verbatim>\<open>AssignAccommodation\<close>:
  \<^verbatim>\<open>EXISTS (SELECT 1 FROM AccommodationRequests ar
     WHERE ar.AssignedAccommodationID = a.AccommodationID AND ar.Status = 'Approved'
       AND ar.RequestID != p_RequestID
       AND ar.CheckInDate < v_CheckOutDate AND ar.CheckOutDate > v_CheckInDate)\<close>.
  A \<^verbatim>\<open>NULL\<close> assignment never equals an id.
\<close>

definition occupied :: "accommodation_request list \<Rightarrow> nat \<Rightarrow> int \<Rightarrow> int \<Rightarrow> nat \<Rightarrow> bool" where
  "occupied reqs p_RequestID v_CheckInDate v_CheckOutDate aid \<longleftrightarrow>
     (\<exists>ar \<in> set reqs.
        ar_AssignedAccommodationID ar = Some aid
      \<and> ar_Status ar = Approved
      \<and> ar_RequestID ar \<noteq> p_RequestID
      \<and> ar_CheckInDate ar < v_CheckOutDate
      \<and> ar_CheckOutDate ar > v_CheckInDate)"

text \<open>The \<^verbatim>\<open>WHERE\<close> clause of the candidate query, for one accommodation row.\<close>

definition candidate ::
  "accommodation_request list \<Rightarrow> nat \<Rightarrow> int \<Rightarrow> int \<Rightarrow> int \<Rightarrow> accommodation \<Rightarrow> bool" where
  "candidate reqs p_RequestID v_CheckInDate v_CheckOutDate v_NumberOfPeople a \<longleftrightarrow>
     a_Capacity a \<ge> v_NumberOfPeople
   \<and> a_Availability a \<noteq> Unavailable
   \<and> \<not> occupied reqs p_RequestID v_CheckInDate v_CheckOutDate (a_AccommodationID a)"

text \<open>
  \<^verbatim>\<open>SELECT a.AccommodationID ... ORDER BY a.Capacity ASC LIMIT 1\<close>. The query names
  no second sort key. Rows of equal capacity are taken here in the order the table
  yields them (the sort is stable), so the row order of \<open>accs\<close> stands for whatever
  order the server happens to produce among ties.
\<close>

definition select_candidate ::
  "accommodation list \<Rightarrow> accommodation_request list \<Rightarrow> nat \<Rightarrow> int \<Rightarrow> int \<Rightarrow> int
     \<Rightarrow> accommodation option" where
  "select_candidate accs reqs p_RequestID v_CheckInDate v_CheckOutDate v_NumberOfPeople =
     (case sort_key a_Capacity
             (filter (candidate reqs p_RequestID v_CheckInDate v_CheckOutDate v_NumberOfPeople) accs)
      of [] \<Rightarrow> None
       | a # _ \<Rightarrow> Some a)"

text \<open>
  What \<^verbatim>\<open>ORDER BY a.Capacity ASC LIMIT 1\<close> may return whatever order the server takes
  among equal capacities: a row that passes the \<^verbatim>\<open>WHERE\<close> clause and whose capacity
  no other such row undercuts.
\<close>

definition smallest_candidate ::
  "accommodation_request list \<Rightarrow> nat \<Rightarrow> int \<Rightarrow> int \<Rightarrow> int \<Rightarrow> accommodation list
     \<Rightarrow> accommodation \<Rightarrow> bool" where
  "smallest_candidate reqs p_RequestID v_CheckInDate v_CheckOutDate v_NumberOfPeople accs a \<longleftrightarrow>
     a \<in> set accs
   \<and> candidate reqs p_RequestID v_CheckInDate v_CheckOutDate v_NumberOfPeople a
   \<and> (\<forall>b \<in> set accs.
         candidate reqs p_RequestID v_CheckInDate v_CheckOutDate v_NumberOfPeople b
         \<longrightarrow> a_Capacity a \<le> a_Capacity b)"

text \<open>The two \<^verbatim>\<open>UPDATE AccommodationRequests ... WHERE RequestID = p_RequestID\<close>.\<close>

definition approve_request :: "nat \<Rightarrow> nat \<Rightarrow> accommodation_request list \<Rightarrow> accommodation_request list" where
  "approve_request p_RequestID aid reqs =
     map (\<lambda>ar. if ar_RequestID ar = p_RequestID
                then ar\<lparr>ar_Status := Approved,
                        ar_AssignedAccommodationID := Some aid,
                        ar_AssignmentNotes := Some (Automatically_assigned aid)\<rparr>
                else ar) reqs"

definition reject_request :: "nat \<Rightarrow> accommodation_request list \<Rightarrow> accommodation_request list" where
  "reject_request p_RequestID reqs =
     map (\<lambda>ar. if ar_RequestID ar = p_RequestID
                then ar\<lparr>ar_Status := Rejected,
                        ar_AssignmentNotes := Some No_suitable_accommodation_available\<rparr>
                else ar) reqs"

text \<open>
  The procedure \<^verbatim>\<open>AssignAccommodation(IN p_RequestID, OUT p_Success, OUT p_Message)\<close>
  on the two tables it reads and writes. \<^verbatim>\<open>SELECT ... INTO\<close> that finds no row
  leaves \<^verbatim>\<open>v_UserID\<close> \<^verbatim>\<open>NULL\<close>, which the first \<^verbatim>\<open>IF\<close> tests.
\<close>

definition AssignAccommodation ::
  "nat \<Rightarrow> accommodation list \<Rightarrow> accommodation_request list
     \<Rightarrow> (bool \<times> assign_message) \<times> accommodation_request list" where
  "AssignAccommodation p_RequestID accs reqs =
     (case find (\<lambda>ar. ar_RequestID ar = p_RequestID) reqs of
        None \<Rightarrow> ((False, Request_not_found p_RequestID), reqs)
      | Some r \<Rightarrow>
          if ar_Status r \<noteq> Pending
          then ((False, Already_processed p_RequestID (ar_Status r)), reqs)
          else (case select_candidate accs reqs p_RequestID
                       (ar_CheckInDate r) (ar_CheckOutDate r) (ar_NumberOfPeople r) of
                  Some a \<Rightarrow>
                    ((True, Accommodation_assigned (a_AccommodationID a) p_RequestID),
                     approve_request p_RequestID (a_AccommodationID a) reqs)
                | None \<Rightarrow>
                    ((False, No_suitable_accommodation_found p_RequestID),
                     reject_request p_RequestID reqs)))"

text \<open>Processing the requests \<open>ps\<close> one after the other, in that order.\<close>

definition process_requests ::
  "nat list \<Rightarrow> accommodation list \<Rightarrow> accommodation_request list \<Rightarrow> accommodation_request list" where
  "process_requests ps accs reqs = fold (\<lambda>p rs. snd (AssignAccommodation p accs rs)) ps reqs"

text \<open>
  The allocation invariant: two Approved requests with different ids assigned to the
  same accommodation never overlap.
\<close>

definition no_double_booking :: "accommodation_request list \<Rightarrow> bool" where
  "no_double_booking reqs \<longleftrightarrow>
     (\<forall>r1 \<in> set reqs. \<forall>r2 \<in> set reqs.
        ar_RequestID r1 \<noteq> ar_RequestID r2
      \<and> ar_Status r1 = Approved \<and> ar_Status r2 = Approved
      \<and> ar_AssignedAccommodationID r1 \<noteq> None
      \<and> ar_AssignedAccommodationID r1 = ar_AssignedAccommodationID r2
      \<longrightarrow> \<not> ranges_overlap (ar_CheckInDate r1) (ar_CheckOutDate r1)
                             (ar_CheckInDate r2) (ar_CheckOutDate r2))"

text \<open>
  Sample tables in the shape of the seed script: the Guest House (capacity 2) holds an
  Approved stay from day 15 to day 18; the Hostel Block and the Annex both have
  capacity 4; the Annex holds an Approved stay that ends on day 16.
\<close>

definition sample_accommodations :: "accommodation list" where
  "sample_accommodations =
     [\<lparr>a_AccommodationID = 1, a_Name = ''Guest House'', a_Capacity = 2, a_Availability = Available\<rparr>,
      \<lparr>a_AccommodationID = 2, a_Name = ''Hostel Block'', a_Capacity = 4, a_Availability = Unavailable\<rparr>,
      \<lparr>a_AccommodationID = 3, a_Name = ''Annex'', a_Capacity = 4, a_Availability = Available\<rparr>]"

definition sample_requests :: "accommodation_request list" where
  "sample_requests =
     [\<lparr>ar_RequestID = 1, ar_UserID = 7, ar_CheckInDate = 15, ar_CheckOutDate = 18,
       ar_NumberOfPeople = 2, ar_Status = Approved, ar_AssignedAccommodationID = Some 1,
       ar_AssignmentNotes = Some (Seeded_note ''Assigned to Guest House room 101'')\<rparr>,
      \<lparr>ar_RequestID = 2, ar_UserID = 8, ar_CheckInDate = 16, ar_CheckOutDate = 17,
       ar_NumberOfPeople = 1, ar_Status = Pending, ar_AssignedAccommodationID = None,
       ar_AssignmentNotes = None\<rparr>,
      \<lparr>ar_RequestID = 3, ar_UserID = 9, ar_CheckInDate = 10, ar_CheckOutDate = 16,
       ar_NumberOfPeople = 3, ar_Status = Approved, ar_AssignedAccommodationID = Some 3,
       ar_AssignmentNotes = None\<rparr>]"

text \<open>Two free accommodations of equal capacity, in the two possible row orders.\<close>

definition twin_a :: accommodation where
  "twin_a = \<lparr>a_AccommodationID = 1, a_Name = ''East Wing'', a_Capacity = 2, a_Availability = Available\<rparr>"

definition twin_b :: accommodation where
  "twin_b = \<lparr>a_AccommodationID = 2, a_Name = ''West Wing'', a_Capacity = 2, a_Availability = Available\<rparr>"

definition twin_request :: "accommodation_request list" where
  "twin_request =
     [\<lparr>ar_RequestID = 1, ar_UserID = 7, ar_CheckInDate = 15, ar_CheckOutDate = 18,
       ar_NumberOfPeople = 2, ar_Status = Pending, ar_AssignedAccommodationID = None,
       ar_AssignmentNotes = None\<rparr>]"

subsection \<open>Users, Events, Teams, Registrations, Payments\<close>

datatype event_type = Individual | Team | Both

datatype event_status =
  Event_Draft | Event_Published | Event_Ongoing | Event_Completed | Event_Cancelled

datatype registration_status = pending | confirmed | cancelled | waitlisted | checked_in

datatype registration_payment_status =
  PS_pending | PS_paid | PS_failed | PS_refunded | PS_not_required

datatype payment_status = P_pending | P_completed | P_failed | P_refunded

datatype payment_method =
  credit_card | debit_card | bank_transfer | cash | check_payment | online_gateway | other

record event =
  e_EventID :: nat
  e_Name :: string
  e_Reg_Fee :: int
  e_Max_Participants :: "int option"
  e_EventType :: event_type
  e_RegistrationDeadline :: "int option"
  e_Status :: event_status

record registration =
  r_RegistrationID :: nat
  r_UserID :: nat
  r_EventID :: nat
  r_TeamID :: "nat option"
  r_RegistrationDate :: int
  r_Status :: registration_status
  r_PaymentStatus :: registration_payment_status
  r_SpecialRequirements :: "string option"

record payment =
  p_PaymentID :: nat
  p_Amount :: int
  p_PaymentMethod :: payment_method
  p_Status :: payment_status
  p_Description :: "string option"
  p_PayerUserID :: "nat option"
  p_RelatedRegistrationID :: "nat option"
  p_RelatedContractID :: "nat option"

datatype team_status = T_active | T_inactive | T_disqualified

datatype member_status = TM_active | TM_inactive | TM_pending_invite

record team =
  t_TeamID :: nat
  t_TeamName :: string
  t_EventID :: nat
  t_LeaderID :: nat
  t_Status :: team_status

record team_member =
  tm_TeamMembershipID :: nat
  tm_TeamID :: nat
  tm_UserID :: nat
  tm_Role :: string
  tm_Status :: member_status

text \<open>
  What a statement can fail with: the two \<^verbatim>\<open>SIGNAL SQLSTATE '45000'\<close> of the payment
  triggers, a duplicate key (\<^verbatim>\<open>ER_DUP_ENTRY\<close>) and a missing referenced row
  (\<^verbatim>\<open>ER_NO_REFERENCED_ROW\<close>).
\<close>

datatype sql_error =
    Payment_must_be_related
  | Payment_cannot_be_related_to_both
  | Duplicate_entry
  | No_referenced_row

text \<open>\<^verbatim>\<open>AUTO_INCREMENT\<close>: the next key is above every key in the table.\<close>

definition next_id :: "nat list \<Rightarrow> nat" where
  "next_id ids = Suc (foldr max ids 0)"

subsection \<open>The payment triggers\<close>

text \<open>
  \<^verbatim>\<open>validate_payment_relation_on_insert\<close>, \<^verbatim>\<open>BEFORE INSERT ON Payments\<close>: the two
  \<^verbatim>\<open>IF ... THEN SIGNAL\<close> in their order. \<open>None\<close> means the row passes.
\<close>

definition validate_payment_relation_on_insert :: "payment \<Rightarrow> sql_error option" where
  "validate_payment_relation_on_insert NEW =
     (if p_RelatedRegistrationID NEW = None \<and> p_RelatedContractID NEW = None
      then Some Payment_must_be_related
      else if p_RelatedRegistrationID NEW \<noteq> None \<and> p_RelatedContractID NEW \<noteq> None
      then Some Payment_cannot_be_related_to_both
      else None)"

text \<open>\<^verbatim>\<open>validate_payment_relation_on_update\<close>, \<^verbatim>\<open>BEFORE UPDATE ON Payments\<close>.\<close>

definition validate_payment_relation_on_update :: "payment \<Rightarrow> payment \<Rightarrow> sql_error option" where
  "validate_payment_relation_on_update OLD NEW =
     (if p_RelatedRegistrationID NEW = None \<and> p_RelatedContractID NEW = None
      then Some Payment_must_be_related
      else if p_RelatedRegistrationID NEW \<noteq> None \<and> p_RelatedContractID NEW \<noteq> None
      then Some Payment_cannot_be_related_to_both
      else None)"

text \<open>
  \<^verbatim>\<open>ConfirmRegistrationOnPayment\<close>, \<^verbatim>\<open>AFTER UPDATE ON Payments\<close>:
  \<^verbatim>\<open>IF OLD.Status != 'completed' AND NEW.Status = 'completed'
        AND NEW.RelatedRegistrationID IS NOT NULL THEN
     UPDATE Registrations SET Status = 'confirmed', PaymentStatus = 'paid'
     WHERE RegistrationID = NEW.RelatedRegistrationID AND Status IN ('pending', 'waitlisted')\<close>.
\<close>

definition ConfirmRegistrationOnPayment ::
  "payment \<Rightarrow> payment \<Rightarrow> registration list \<Rightarrow> registration list" where
  "ConfirmRegistrationOnPayment OLD NEW regs =
     (if p_Status OLD \<noteq> P_completed \<and> p_Status NEW = P_completed
         \<and> p_RelatedRegistrationID NEW \<noteq> None
      then map (\<lambda>r. if Some (r_RegistrationID r) = p_RelatedRegistrationID NEW
                        \<and> (r_Status r = pending \<or> r_Status r = waitlisted)
                     then r\<lparr>r_Status := confirmed, r_PaymentStatus := PS_paid\<rparr>
                     else r) regs
      else regs)"

subsection \<open>The database and the statements on Payments\<close>

text \<open>Of a user only the key \<^verbatim>\<open>UserID\<close> matters here.\<close>

record database =
  Users :: "nat list"
  Events :: "event list"
  Teams :: "team list"
  TeamMembers :: "team_member list"
  Registrations :: "registration list"
  Payments :: "payment list"

text \<open>
  \<^verbatim>\<open>INSERT INTO Payments\<close>: the row gets its key, the \<^verbatim>\<open>BEFORE INSERT\<close> trigger
  runs, and the row is stored if the trigger did not signal. No trigger of the schema
  runs after an insert into Payments. The result carries \<^verbatim>\<open>insertId\<close>.
  (The \<^verbatim>\<open>CHECK\<close> and foreign-key constraints of Payments are left out: they can only
  refuse further statements.)
\<close>

definition insert_Payments :: "payment \<Rightarrow> database \<Rightarrow> sql_error + (nat \<times> database)" where
  "insert_Payments row db =
     (let NEW = row\<lparr>p_PaymentID := next_id (map p_PaymentID (Payments db))\<rparr>
      in case validate_payment_relation_on_insert NEW of
           Some e \<Rightarrow> Inl e
         | None \<Rightarrow> Inr (p_PaymentID NEW, db\<lparr>Payments := Payments db @ [NEW]\<rparr>))"

text \<open>
  \<^verbatim>\<open>UPDATE Payments SET ... WHERE ...\<close>, row by row: for each row the \<^verbatim>\<open>WHERE\<close>
  clause selects, \<open>NEW\<close> is the row after the \<^verbatim>\<open>SET\<close> clause, the \<^verbatim>\<open>BEFORE UPDATE\<close>
  trigger runs, the row is replaced, and the \<^verbatim>\<open>AFTER UPDATE\<close> trigger runs on
  Registrations. A signal aborts the whole statement.
\<close>

fun update_Payments_rows ::
  "(payment \<Rightarrow> bool) \<Rightarrow> (payment \<Rightarrow> payment) \<Rightarrow> payment list \<Rightarrow> registration list
     \<Rightarrow> sql_error + (payment list \<times> registration list)" where
  "update_Payments_rows wh st [] regs = Inr ([], regs)"
| "update_Payments_rows wh st (OLD # rows) regs =
     (if wh OLD
      then (case validate_payment_relation_on_update OLD (st OLD) of
              Some e \<Rightarrow> Inl e
            | None \<Rightarrow>
                (case update_Payments_rows wh st rows
                        (ConfirmRegistrationOnPayment OLD (st OLD) regs) of
                   Inl e \<Rightarrow> Inl e
                 | Inr (rows', regs') \<Rightarrow> Inr (st OLD # rows', regs')))
      else (case update_Payments_rows wh st rows regs of
              Inl e \<Rightarrow> Inl e
            | Inr (rows', regs') \<Rightarrow> Inr (OLD # rows', regs')))"

definition update_Payments ::
  "(payment \<Rightarrow> bool) \<Rightarrow> (payment \<Rightarrow> payment) \<Rightarrow> database \<Rightarrow> sql_error + database" where
  "update_Payments wh st db =
     (case update_Payments_rows wh st (Payments db) (Registrations db) of
        Inl e \<Rightarrow> Inl e
      | Inr (rows', regs') \<Rightarrow> Inr (db\<lparr>Payments := rows', Registrations := regs'\<rparr>))"

text \<open>
  A statement on Payments and its outcome on the database. A statement that fails
  leaves the database as it was (the statement is rolled back).
\<close>

datatype payment_statement =
    INSERT_Payments payment
  | UPDATE_Payments "payment \<Rightarrow> bool" "payment \<Rightarrow> payment"

fun execute_payment_statement ::
  "payment_statement \<Rightarrow> database \<Rightarrow> sql_error option \<times> database" where
  "execute_payment_statement (INSERT_Payments row) db =
     (case insert_Payments row db of
        Inl e \<Rightarrow> (Some e, db)
      | Inr (_, db') \<Rightarrow> (None, db'))"
| "execute_payment_statement (UPDATE_Payments wh st) db =
     (case update_Payments wh st db of
        Inl e \<Rightarrow> (Some e, db)
      | Inr db' \<Rightarrow> (None, db'))"

definition run_payment_statements :: "payment_statement list \<Rightarrow> database \<Rightarrow> database" where
  "run_payment_statements sts db = fold (\<lambda>s d. snd (execute_payment_statement s d)) sts db"

text \<open>The XOR invariant of one payment row and of the table.\<close>

definition payment_xor :: "payment \<Rightarrow> bool" where
  "payment_xor p \<longleftrightarrow> (p_RelatedRegistrationID p = None) \<noteq> (p_RelatedContractID p = None)"

definition payments_xor :: "database \<Rightarrow> bool" where
  "payments_xor db \<longleftrightarrow> (\<forall>p \<in> set (Payments db). payment_xor p)"



text \<open>
  A sample database: user 10 holds a pending registration for the paid event 100 and a
  cancelled one for the free event 101, each with a pending payment.
\<close>

definition sample_db :: database where
  "sample_db =
     \<lparr>Users = [10, 11],
      Events =
        [\<lparr>e_EventID = 100, e_Name = ''Programming Contest'', e_Reg_Fee = 50000,
          e_Max_Participants = Some 100, e_EventType = Individual,
          e_RegistrationDeadline = Some 1000, e_Status = Event_Published\<rparr>,
         \<lparr>e_EventID = 101, e_Name = ''Music Night'', e_Reg_Fee = 0,
          e_Max_Participants = None, e_EventType = Individual,
          e_RegistrationDeadline = None, e_Status = Event_Published\<rparr>],
      Teams = [],
      TeamMembers = [],
      Registrations =
        [\<lparr>r_RegistrationID = 1, r_UserID = 10, r_EventID = 100, r_TeamID = None,
          r_RegistrationDate = 5, r_Status = pending, r_PaymentStatus = PS_pending,
          r_SpecialRequirements = None\<rparr>,
         \<lparr>r_RegistrationID = 2, r_UserID = 10, r_EventID = 101, r_TeamID = None,
          r_RegistrationDate = 6, r_Status = cancelled, r_PaymentStatus = PS_pending,
          r_SpecialRequirements = None\<rparr>],
      Payments =
        [\<lparr>p_PaymentID = 1, p_Amount = 50000, p_PaymentMethod = online_gateway,
          p_Status = P_pending, p_Description = None, p_PayerUserID = Some 10,
          p_RelatedRegistrationID = Some 1, p_RelatedContractID = None\<rparr>,
         \<lparr>p_PaymentID = 2, p_Amount = 100, p_PaymentMethod = cash,
          p_Status = P_pending, p_Description = None, p_PayerUserID = Some 10,
          p_RelatedRegistrationID = Some 2, p_RelatedContractID = None\<rparr>]\<rparr>"

definition unrelated_payment :: payment where
  "unrelated_payment =
     \<lparr>p_PaymentID = 0, p_Amount = 700, p_PaymentMethod = cash,
      p_Status = P_pending, p_Description = None, p_PayerUserID = Some 11,
      p_RelatedRegistrationID = None, p_RelatedContractID = None\<rparr>"

definition sponsorship_payment :: payment where
  "sponsorship_payment =
     \<lparr>p_PaymentID = 0, p_Amount = 9000000, p_PaymentMethod = bank_transfer,
      p_Status = P_completed, p_Description = None, p_PayerUserID = Some 11,
      p_RelatedRegistrationID = None, p_RelatedContractID = Some 4\<rparr>"


subsection \<open>The Express routes\<close>

text \<open>
  What a handler sends: \<^verbatim>\<open>res.status(n).json(...)\<close> with the text of its
  \<^verbatim>\<open>error\<close> or \<^verbatim>\<open>message\<close> field and, where the handler adds one, the new key;
  \<^verbatim>\<open>res.status(n).render('error', ...)\<close>; the redirect to
  \<^verbatim>\<open>/registration/success?id=...\<close>; or \<^verbatim>\<open>next(error)\<close>.

  A handler reads its request: a field that is \<^verbatim>\<open>undefined\<close> there is \<open>None\<close> here.
  \<^verbatim>\<open>executeQuery\<close> runs the statement with \<^verbatim>\<open>connection.execute\<close>, which throws on
  an \<^verbatim>\<open>undefined\<close> parameter and on every SQL error; each handler catches what is
  thrown in its \<^verbatim>\<open>try\<close> block.
\<close>

datatype response =
    Json nat string "nat option"
  | Render nat string
  | Redirect_registration_success nat
  | Next_error sql_error

subsubsection \<open>routes/registration.js\<close>

text \<open>
  \<^verbatim>\<open>INSERT INTO Registrations\<close>: the unique key
  \<^verbatim>\<open>unique_user_event_registration (UserID, EventID)\<close> and the foreign keys to Users,
  Events and Teams.
\<close>

definition insert_Registrations :: "registration \<Rightarrow> database \<Rightarrow> sql_error + (nat \<times> database)" where
  "insert_Registrations row db =
     (let NEW = row\<lparr>r_RegistrationID := next_id (map r_RegistrationID (Registrations db))\<rparr>
      in if \<exists>r \<in> set (Registrations db). r_UserID r = r_UserID NEW \<and> r_EventID r = r_EventID NEW
         then Inl Duplicate_entry
         else if r_UserID NEW \<notin> set (Users db)
               \<or> r_EventID NEW \<notin> set (map e_EventID (Events db))
               \<or> (case r_TeamID NEW of None \<Rightarrow> False
                     | Some t \<Rightarrow> t \<notin> set (map t_TeamID (Teams db)))
         then Inl No_referenced_row
         else Inr (r_RegistrationID NEW, db\<lparr>Registrations := Registrations db @ [NEW]\<rparr>))"

text \<open>\<^verbatim>\<open>specialRequirements || null\<close>: an absent or empty text is stored as \<^verbatim>\<open>NULL\<close>.\<close>

definition or_null :: "string option \<Rightarrow> string option" where
  "or_null s = (case s of None \<Rightarrow> None | Some t \<Rightarrow> if t = [] then None else Some t)"

text \<open>
  \<^verbatim>\<open>router.post('/', isAuthenticated, ...)\<close>, the user-facing event registration.
  \<open>session_UserID\<close> is \<^verbatim>\<open>req.session.user.UserID\<close> (\<open>None\<close> when the session has no
  user: reading the property throws then); \<open>now\<close> is what \<^verbatim>\<open>NOW()\<close> returns. The
  handler reads the event row and uses none of its columns.
\<close>

definition post_registration ::
  "int \<Rightarrow> nat option \<Rightarrow> nat option \<Rightarrow> string option \<Rightarrow> database \<Rightarrow> response \<times> database" where
  "post_registration now session_UserID eventId specialRequirements db =
     (case (session_UserID, eventId) of
        (Some userId, Some eid) \<Rightarrow>
          if filter (\<lambda>e. e_EventID e = eid) (Events db) = []
          then (Render 404 ''Event not found'', db)
          else if filter (\<lambda>r. r_EventID r = eid \<and> r_UserID r = userId) (Registrations db) \<noteq> []
          then (Render 400 ''Already registered'', db)
          else (case insert_Registrations
                       \<lparr>r_RegistrationID = 0, r_UserID = userId, r_EventID = eid,
                        r_TeamID = None, r_RegistrationDate = now, r_Status = pending,
                        r_PaymentStatus = PS_pending,
                        r_SpecialRequirements = or_null specialRequirements\<rparr> db of
                  Inl e \<Rightarrow> (Render 500 ''Registration failed'', db)
                | Inr (insertId, db') \<Rightarrow> (Redirect_registration_success insertId, db'))
      | _ \<Rightarrow> (Render 500 ''Registration failed'', db))"

text \<open>
  \<^verbatim>\<open>router.post('/api/registrations', ...)\<close>. \<^verbatim>\<open>!userId || !eventId\<close> holds for an
  absent field and for 0. The statement names \<^verbatim>\<open>UserID, EventID, PaymentStatus\<close> only:
  \<^verbatim>\<open>Status\<close> takes its default \<^verbatim>\<open>'pending'\<close>, \<^verbatim>\<open>RegistrationDate\<close> the current
  time, and the value \<^verbatim>\<open>'Pending'\<close> is the member \<^verbatim>\<open>'pending'\<close> of the enumeration
  (the comparison ignores case).
\<close>

definition post_api_registrations ::
  "int \<Rightarrow> nat option \<Rightarrow> nat option \<Rightarrow> database \<Rightarrow> response \<times> database" where
  "post_api_registrations now userId eventId db =
     (case (userId, eventId) of
        (Some uid, Some eid) \<Rightarrow>
          if uid = 0 \<or> eid = 0 then (Json 400 ''Missing required fields'' None, db)
          else if filter (\<lambda>u. u = uid) (Users db) = []
          then (Json 404 ''User not found'' None, db)
          else if filter (\<lambda>e. e_EventID e = eid) (Events db) = []
          then (Json 404 ''Event not found'' None, db)
          else if filter (\<lambda>r. r_UserID r = uid \<and> r_EventID r = eid) (Registrations db) \<noteq> []
          then (Json 400 ''Already registered'' None, db)
          else (case insert_Registrations
                       \<lparr>r_RegistrationID = 0, r_UserID = uid, r_EventID = eid,
                        r_TeamID = None, r_RegistrationDate = now, r_Status = pending,
                        r_PaymentStatus = PS_pending,
                        r_SpecialRequirements = None\<rparr> db of
                  Inl e \<Rightarrow> (Json 500 ''Server error'' None, db)
                | Inr (insertId, db') \<Rightarrow> (Json 201 ''Registration successful'' None, db'))
      | _ \<Rightarrow> (Json 400 ''Missing required fields'' None, db))"

text \<open>The two ways to create a registration, and a run of such calls.\<close>

datatype create_call =
    POST_registration int "nat option" "nat option" "string option"
  | POST_api_registrations int "nat option" "nat option"

fun createRegistration :: "create_call \<Rightarrow> database \<Rightarrow> response \<times> database" where
  "createRegistration (POST_registration now u e s) db = post_registration now u e s db"
| "createRegistration (POST_api_registrations now u e) db = post_api_registrations now u e db"

definition run_create_calls :: "create_call list \<Rightarrow> database \<Rightarrow> database" where
  "run_create_calls calls db = fold (\<lambda>c d. snd (createRegistration c d)) calls db"

text \<open>
  \<^verbatim>\<open>unique_user_event_registration\<close> as a property of the table, and what the foreign
  keys of Registrations and the \<^verbatim>\<open>AUTO_INCREMENT\<close> keys (which start at 1) guarantee.
\<close>

definition unique_user_event :: "database \<Rightarrow> bool" where
  "unique_user_event db \<longleftrightarrow> distinct (map (\<lambda>r. (r_UserID r, r_EventID r)) (Registrations db))"

definition registrations_reference :: "database \<Rightarrow> bool" where
  "registrations_reference db \<longleftrightarrow>
     0 \<notin> set (Users db) \<and> 0 \<notin> set (map e_EventID (Events db))
   \<and> (\<forall>r \<in> set (Registrations db).
        r_UserID r \<in> set (Users db) \<and> r_EventID r \<in> set (map e_EventID (Events db)))"

subsubsection \<open>routes/teams.js\<close>

text \<open>
  \<^verbatim>\<open>INSERT INTO TeamMembers (TeamID, UserID, Role)\<close>: \<^verbatim>\<open>Status\<close> takes its default
  \<^verbatim>\<open>'active'\<close>; the unique key \<^verbatim>\<open>unique_user_team (TeamID, UserID)\<close> and the foreign
  keys to Teams and Users are checked.
\<close>

definition insert_TeamMembers :: "nat \<Rightarrow> nat \<Rightarrow> string \<Rightarrow> database \<Rightarrow> sql_error + database" where
  "insert_TeamMembers tid uid role db =
     (if \<exists>m \<in> set (TeamMembers db). tm_TeamID m = tid \<and> tm_UserID m = uid
      then Inl Duplicate_entry
      else if tid \<notin> set (map t_TeamID (Teams db)) \<or> uid \<notin> set (Users db)
      then Inl No_referenced_row
      else Inr (db\<lparr>TeamMembers := TeamMembers db @
                     [\<lparr>tm_TeamMembershipID = next_id (map tm_TeamMembershipID (TeamMembers db)),
                       tm_TeamID = tid, tm_UserID = uid, tm_Role = role,
                       tm_Status = TM_active\<rparr>]\<rparr>))"

text \<open>
  \<^verbatim>\<open>const [team] = await executeQuery('SELECT LeaderID FROM Teams WHERE TeamID = ?', ...)\<close>
  followed by \<^verbatim>\<open>!team || team.LeaderID !== req.user.id\<close>: true when no team has the
  key, when \<^verbatim>\<open>req.user.id\<close> is \<^verbatim>\<open>undefined\<close>, and when it is another number.
\<close>

definition not_team_leader :: "nat option \<Rightarrow> nat \<Rightarrow> database \<Rightarrow> bool" where
  "not_team_leader req_user_id tid db =
     (case filter (\<lambda>t. t_TeamID t = tid) (Teams db) of
        [] \<Rightarrow> True
      | team # _ \<Rightarrow> Some (t_LeaderID team) \<noteq> req_user_id)"

text \<open>
  \<^verbatim>\<open>SELECT COUNT(*) as count FROM TeamMembers WHERE TeamID = ? AND Status = "active"\<close>.
\<close>

definition active_count :: "database \<Rightarrow> nat \<Rightarrow> nat" where
  "active_count db tid =
     length (filter (\<lambda>m. tm_TeamID m = tid \<and> tm_Status m = TM_active) (TeamMembers db))"

text \<open>
  \<^verbatim>\<open>router.post('/:id/members', isAuthenticated, ...)\<close>: add a team member. The
  arguments are \<^verbatim>\<open>req.user.id\<close>, \<^verbatim>\<open>req.params.id\<close>, and \<^verbatim>\<open>userId\<close> and \<^verbatim>\<open>role\<close> of the
  body (\<^verbatim>\<open>role = 'Member'\<close> when absent).
\<close>

definition post_team_members ::
  "nat option \<Rightarrow> nat \<Rightarrow> nat option \<Rightarrow> string option \<Rightarrow> database \<Rightarrow> response \<times> database" where
  "post_team_members req_user_id tid userId role db =
     (if not_team_leader req_user_id tid db
      then (Json 403 ''Only team leader can add members'' None, db)
      else if active_count db tid \<ge> 3
      then (Json 400 ''Team already has maximum allowed members (3)'' None, db)
      else (case userId of
              None \<Rightarrow> (Json 500 ''Failed to add team member'' None, db)
            | Some uid \<Rightarrow>
                if filter (\<lambda>m. tm_TeamID m = tid \<and> tm_UserID m = uid) (TeamMembers db) \<noteq> []
                then (Json 400 ''User is already a team member'' None, db)
                else (case insert_TeamMembers tid uid
                             (case role of None \<Rightarrow> ''Member'' | Some r \<Rightarrow> r) db of
                        Inl e \<Rightarrow> (Json 500 ''Failed to add team member'' None, db)
                      | Inr db' \<Rightarrow> (Json 201 ''Member added successfully'' None, db'))))"


text \<open>
  \<^verbatim>\<open>router.delete('/:id/members/:userId', isAuthenticated, ...)\<close>: remove a member.
  The guard is
  \<^verbatim>\<open>!team || (team.LeaderID !== req.user.id && req.params.userId !== req.user.id)\<close>;
  \<^verbatim>\<open>req.params.userId\<close> is a string and \<^verbatim>\<open>req.user.id\<close> is not, so the second
  \<^verbatim>\<open>!==\<close> is always true and the guard is the leader's check.
\<close>

definition delete_team_member ::
  "nat option \<Rightarrow> nat \<Rightarrow> nat \<Rightarrow> database \<Rightarrow> response \<times> database" where
  "delete_team_member req_user_id tid uid db =
     (if not_team_leader req_user_id tid db
      then (Json 403 ''Unauthorized to remove team member'' None, db)
      else (Json 200 ''Member removed successfully'' None,
            db\<lparr>TeamMembers :=
                 filter (\<lambda>m. \<not> (tm_TeamID m = tid \<and> tm_UserID m = uid)) (TeamMembers db)\<rparr>))"





subsubsection \<open>routes/payments.js\<close>

text \<open>
  \<^verbatim>\<open>router.post('/api/payments/registration', isAuthenticated, ...)\<close>. The guard
  \<^verbatim>\<open>!participantId || !eventId || !amount || !paymentMethod\<close> holds for an absent
  field and for 0. The \<^verbatim>\<open>INSERT INTO Payments\<close> names the columns
  \<^verbatim>\<open>ParticipantUserID, Amount, PaymentMethod, Status, Description, PaymentDate\<close>: it
  gives neither \<^verbatim>\<open>RelatedRegistrationID\<close> nor \<^verbatim>\<open>RelatedContractID\<close>, so both are
  \<^verbatim>\<open>NULL\<close> in the new row. (The schema has no column \<^verbatim>\<open>ParticipantUserID\<close> in
  Payments and no column \<^verbatim>\<open>PaymentID\<close> in Registrations; the first is read here as
  \<^verbatim>\<open>PayerUserID\<close>, the second has no counterpart.) What \<^verbatim>\<open>executeQuery\<close> throws goes
  to \<^verbatim>\<open>next(error)\<close>, and the \<^verbatim>\<open>UPDATE Registrations\<close> is not reached then.
\<close>

definition post_api_payments_registration ::
  "nat option \<Rightarrow> nat option \<Rightarrow> int option \<Rightarrow> payment_method option \<Rightarrow> database
     \<Rightarrow> response \<times> database" where
  "post_api_payments_registration participantId eventId amount paymentMethod db =
     (case (participantId, eventId, amount, paymentMethod) of
        (Some uid, Some eid, Some amt, Some method) \<Rightarrow>
          if uid = 0 \<or> eid = 0 \<or> amt = 0
          then (Json 400 ''Missing required fields'' None, db)
          else (case insert_Payments
                       \<lparr>p_PaymentID = 0, p_Amount = amt, p_PaymentMethod = method,
                        p_Status = P_completed,
                        p_Description = Some ''Event Registration Payment'',
                        p_PayerUserID = Some uid,
                        p_RelatedRegistrationID = None, p_RelatedContractID = None\<rparr> db of
                  Inl e \<Rightarrow> (Next_error e, db)
                | Inr (insertId, db') \<Rightarrow>
                    (Json 201 ''Payment processed successfully'' (Some insertId),
                     db'\<lparr>Registrations :=
                          map (\<lambda>r. if r_UserID r = uid \<and> r_EventID r = eid
                                    then r\<lparr>r_PaymentStatus := PS_paid\<rparr> else r)
                              (Registrations db')\<rparr>))
      | _ \<Rightarrow> (Json 400 ''Missing required fields'' None, db))"

section \<open>Lemmas and theorems\<close>

section \<open>Allocation: helper lemmas\<close>

lemma select_candidate_Some:
  assumes "select_candidate accs reqs p ci co n = Some a"
  shows "a \<in> set accs" and "candidate reqs p ci co n a"
    and "\<forall>b \<in> set accs. candidate reqs p ci co n b \<longrightarrow> a_Capacity a \<le> a_Capacity b"
proof -
  let ?cs = "filter (candidate reqs p ci co n) accs"
  from assms obtain rest where s: "sort_key a_Capacity ?cs = a # rest"
    by (auto simp: select_candidate_def split: list.splits)
  have "a \<in> set (sort_key a_Capacity ?cs)" by (simp add: s)
  then have m: "a \<in> set ?cs" by simp
  from m show "a \<in> set accs" by simp
  from m show "candidate reqs p ci co n a" by simp
  have "sorted (map a_Capacity (sort_key a_Capacity ?cs))" by (rule sorted_sort_key)
  then have le: "\<forall>b \<in> set rest. a_Capacity a \<le> a_Capacity b"
    by (simp add: s)
  show "\<forall>b \<in> set accs. candidate reqs p ci co n b \<longrightarrow> a_Capacity a \<le> a_Capacity b"
  proof (intro ballI impI)
    fix b assume "b \<in> set accs" "candidate reqs p ci co n b"
    then have "b \<in> set (sort_key a_Capacity ?cs)" by simp
    then have "b = a \<or> b \<in> set rest" by (simp add: s)
    with le show "a_Capacity a \<le> a_Capacity b" by auto
  qed
qed

lemma select_candidate_None:
  "select_candidate accs reqs p ci co n = None
     \<longleftrightarrow> (\<forall>b \<in> set accs. \<not> candidate reqs p ci co n b)"
proof -
  let ?cs = "filter (candidate reqs p ci co n) accs"
  have "select_candidate accs reqs p ci co n = None \<longleftrightarrow> sort_key a_Capacity ?cs = []"
    by (simp add: select_candidate_def split: list.splits)
  also have "\<dots> \<longleftrightarrow> set (sort_key a_Capacity ?cs) = {}" by (simp only: set_empty)
  also have "\<dots> \<longleftrightarrow> (\<forall>b \<in> set accs. \<not> candidate reqs p ci co n b)" by auto
  finally show ?thesis .
qed

lemma request_id_unique:
  assumes "distinct (map ar_RequestID reqs)" "x \<in> set reqs" "y \<in> set reqs"
    and "ar_RequestID x = ar_RequestID y"
  shows "x = y"
  using assms by (meson distinct_map inj_on_def)

lemma find_request_id:
  assumes "find (\<lambda>ar. ar_RequestID ar = p) reqs = Some r"
  shows "r \<in> set reqs" and "ar_RequestID r = p"
  using assms by (auto simp: find_Some_iff)

lemma reject_request_no_double_booking:
  assumes "no_double_booking reqs"
  shows "no_double_booking (reject_request p reqs)"
  unfolding no_double_booking_def reject_request_def
proof (intro ballI impI)
  fix r1 r2
  let ?f = "\<lambda>ar. if ar_RequestID ar = p
                then ar\<lparr>ar_Status := Rejected,
                        ar_AssignmentNotes := Some No_suitable_accommodation_available\<rparr>
                else ar"
  assume m1: "r1 \<in> set (map ?f reqs)" and m2: "r2 \<in> set (map ?f reqs)"
    and h: "ar_RequestID r1 \<noteq> ar_RequestID r2
      \<and> ar_Status r1 = Approved \<and> ar_Status r2 = Approved
      \<and> ar_AssignedAccommodationID r1 \<noteq> None
      \<and> ar_AssignedAccommodationID r1 = ar_AssignedAccommodationID r2"
  from m1 obtain x1 where x1: "x1 \<in> set reqs" "r1 = ?f x1" by auto
  from m2 obtain x2 where x2: "x2 \<in> set reqs" "r2 = ?f x2" by auto
  from h x1 have e1: "r1 = x1" by (auto split: if_splits)
  from h x2 have e2: "r2 = x2" by (auto split: if_splits)
  from assms x1(1) x2(1) h e1 e2
  show "\<not> ranges_overlap (ar_CheckInDate r1) (ar_CheckOutDate r1)
                         (ar_CheckInDate r2) (ar_CheckOutDate r2)"
    unfolding no_double_booking_def by blast
qed

lemma approve_request_no_double_booking:
  assumes pk: "distinct (map ar_RequestID reqs)"
    and inv: "no_double_booking reqs"
    and r: "r \<in> set reqs" "ar_RequestID r = p"
    and free: "\<not> occupied reqs p (ar_CheckInDate r) (ar_CheckOutDate r) aid"
  shows "no_double_booking (approve_request p aid reqs)"
  unfolding no_double_booking_def approve_request_def
proof (intro ballI impI)
  fix r1 r2
  let ?f = "\<lambda>ar. if ar_RequestID ar = p
                then ar\<lparr>ar_Status := Approved,
                        ar_AssignedAccommodationID := Some aid,
                        ar_AssignmentNotes := Some (Automatically_assigned aid)\<rparr>
                else ar"
  assume m1: "r1 \<in> set (map ?f reqs)" and m2: "r2 \<in> set (map ?f reqs)"
    and h: "ar_RequestID r1 \<noteq> ar_RequestID r2
      \<and> ar_Status r1 = Approved \<and> ar_Status r2 = Approved
      \<and> ar_AssignedAccommodationID r1 \<noteq> None
      \<and> ar_AssignedAccommodationID r1 = ar_AssignedAccommodationID r2"
  from m1 obtain x1 where x1: "x1 \<in> set reqs" "r1 = ?f x1" by auto
  from m2 obtain x2 where x2: "x2 \<in> set reqs" "r2 = ?f x2" by auto
  have id1: "ar_RequestID r1 = ar_RequestID x1" using x1(2) by simp
  have id2: "ar_RequestID r2 = ar_RequestID x2" using x2(2) by simp
  have dates1: "ar_CheckInDate r1 = ar_CheckInDate x1" "ar_CheckOutDate r1 = ar_CheckOutDate x1"
    using x1(2) by simp_all
  have dates2: "ar_CheckInDate r2 = ar_CheckInDate x2" "ar_CheckOutDate r2 = ar_CheckOutDate x2"
    using x2(2) by simp_all
  consider (neither) "ar_RequestID x1 \<noteq> p" "ar_RequestID x2 \<noteq> p"
    | (first) "ar_RequestID x1 = p" "ar_RequestID x2 \<noteq> p"
    | (second) "ar_RequestID x1 \<noteq> p" "ar_RequestID x2 = p"
    using h id1 id2 by metis
  then show "\<not> ranges_overlap (ar_CheckInDate r1) (ar_CheckOutDate r1)
                         (ar_CheckInDate r2) (ar_CheckOutDate r2)"
  proof cases
    case neither
    then have "r1 = x1" "r2 = x2" using x1(2) x2(2) by simp_all
    with inv x1(1) x2(1) h show ?thesis
      unfolding no_double_booking_def by blast
  next
    case first
    have "x1 = r" using request_id_unique [OF pk x1(1) r(1)] first(1) r(2) by simp
    moreover have "r2 = x2" using first(2) x2(2) by simp
    moreover have "ar_AssignedAccommodationID r1 = Some aid" using first(1) x1(2) by simp
    ultimately have "ar_AssignedAccommodationID x2 = Some aid" "ar_Status x2 = Approved"
      "ar_RequestID x2 \<noteq> p" "ar_CheckInDate r1 = ar_CheckInDate r"
      "ar_CheckOutDate r1 = ar_CheckOutDate r" "r2 = x2"
      using h first(2) dates1 by simp_all
    with free x2(1) show ?thesis
      unfolding occupied_def ranges_overlap_def by auto
  next
    case second
    have "x2 = r" using request_id_unique [OF pk x2(1) r(1)] second(2) r(2) by simp
    moreover have "r1 = x1" using second(1) x1(2) by simp
    moreover have "ar_AssignedAccommodationID r2 = Some aid" using second(2) x2(2) by simp
    ultimately have "ar_AssignedAccommodationID x1 = Some aid" "ar_Status x1 = Approved"
      "ar_RequestID x1 \<noteq> p" "ar_CheckInDate r2 = ar_CheckInDate r"
      "ar_CheckOutDate r2 = ar_CheckOutDate r" "r1 = x1"
      using h second(1) dates2 by simp_all
    with free x1(1) show ?thesis
      unfolding occupied_def ranges_overlap_def by auto
  qed
qed

lemma AssignAccommodation_keeps_ids:
  "map ar_RequestID (snd (AssignAccommodation p accs reqs)) = map ar_RequestID reqs"
  by (auto simp: AssignAccommodation_def approve_request_def reject_request_def comp_def
      split: option.splits intro!: map_cong)

lemma AssignAccommodation_step:
  assumes pk: "distinct (map ar_RequestID reqs)" and inv: "no_double_booking reqs"
  shows "no_double_booking (snd (AssignAccommodation p accs reqs))"
proof (cases "find (\<lambda>ar. ar_RequestID ar = p) reqs")
  case None
  with inv show ?thesis by (simp add: AssignAccommodation_def)
next
  case (Some r)
  note r = find_request_id [OF Some]
  show ?thesis
  proof (cases "ar_Status r = Pending")
    case False
    with Some inv show ?thesis by (simp add: AssignAccommodation_def)
  next
    case True
    show ?thesis
    proof (cases "select_candidate accs reqs p (ar_CheckInDate r) (ar_CheckOutDate r)
                    (ar_NumberOfPeople r)")
      case None
      with Some True reject_request_no_double_booking [OF inv, of p]
      show ?thesis by (simp add: AssignAccommodation_def)
    next
      case (Some a)
      have free: "\<not> occupied reqs p (ar_CheckInDate r) (ar_CheckOutDate r) (a_AccommodationID a)"
        using select_candidate_Some(2) [OF Some] by (simp add: candidate_def)
      show ?thesis
        using approve_request_no_double_booking [OF pk inv r free]
          \<open>find (\<lambda>ar. ar_RequestID ar = p) reqs = Some r\<close> True Some
        by (simp add: AssignAccommodation_def)
    qed
  qed
qed

lemma process_requests_no_double_booking:
  assumes "distinct (map ar_RequestID reqs)" and "no_double_booking reqs"
  shows "no_double_booking (process_requests ps accs reqs)
       \<and> map ar_RequestID (process_requests ps accs reqs) = map ar_RequestID reqs"
  using assms unfolding process_requests_def
proof (induction ps arbitrary: reqs)
  case Nil
  then show ?case by simp
next
  case (Cons p ps)
  have "distinct (map ar_RequestID (snd (AssignAccommodation p accs reqs)))"
    using Cons.prems(1) by (simp only: AssignAccommodation_keeps_ids)
  moreover have "no_double_booking (snd (AssignAccommodation p accs reqs))"
    using Cons.prems by (rule AssignAccommodation_step)
  ultimately show ?case
    using Cons.IH [of "snd (AssignAccommodation p accs reqs)"]
    by (simp add: AssignAccommodation_keeps_ids)
qed

section \<open>Allocation: the claims\<close>

text \<open>
  Claim C1. Allocation never creates a double booking. On a request table whose
  \<^verbatim>\<open>RequestID\<close> is a key and in which no two Approved requests of the same
  accommodation overlap, \<^verbatim>\<open>AssignAccommodation\<close> returns a table with the same
  property, and so does every sequence of calls of it; and whenever it approves
  request \<open>p\<close> into accommodation \<open>aid\<close>, no other
  Approved request of \<open>aid\<close> overlaps the range of \<open>p\<close> under the half-open test
  \<open>a < d \<and> c < b\<close>. Headcount plays no part: one overlapping Approved occupant
  excludes the accommodation whatever the capacities are.
\<close>

theorem AssignAccommodation_never_double_books:
  assumes pk: "distinct (map ar_RequestID reqs)"
    and inv: "no_double_booking reqs"
  shows "no_double_booking (snd (AssignAccommodation p accs reqs))
       \<and> no_double_booking (process_requests ps accs reqs)
       \<and> (\<forall>aid. fst (AssignAccommodation p accs reqs) = (True, Accommodation_assigned aid p)
            \<longrightarrow> (\<forall>r \<in> set reqs. \<forall>r2 \<in> set reqs.
                   ar_RequestID r = p \<and> ar_RequestID r2 \<noteq> p
                 \<and> ar_Status r2 = Approved \<and> ar_AssignedAccommodationID r2 = Some aid
                 \<longrightarrow> \<not> ranges_overlap (ar_CheckInDate r) (ar_CheckOutDate r)
                                        (ar_CheckInDate r2) (ar_CheckOutDate r2)))"
proof -
  have seq: "no_double_booking (process_requests ps accs reqs)"
    using process_requests_no_double_booking [OF pk inv] by simp
  show ?thesis
  proof (cases "find (\<lambda>ar. ar_RequestID ar = p) reqs")
    case None
    with inv seq show ?thesis by (simp add: AssignAccommodation_def)
  next
    case (Some r)
    note r = find_request_id [OF Some]
    show ?thesis
    proof (cases "ar_Status r = Pending")
      case False
      with Some inv seq show ?thesis by (simp add: AssignAccommodation_def)
    next
      case True
      show ?thesis
      proof (cases "select_candidate accs reqs p (ar_CheckInDate r) (ar_CheckOutDate r)
                      (ar_NumberOfPeople r)")
        case None
        with Some True reject_request_no_double_booking [OF inv, of p] seq
        show ?thesis by (simp add: AssignAccommodation_def)
      next
        case (Some a)
        have free: "\<not> occupied reqs p (ar_CheckInDate r) (ar_CheckOutDate r) (a_AccommodationID a)"
          using select_candidate_Some(2) [OF Some] by (simp add: candidate_def)
        have res: "AssignAccommodation p accs reqs =
            ((True, Accommodation_assigned (a_AccommodationID a) p),
             approve_request p (a_AccommodationID a) reqs)"
          using \<open>find (\<lambda>ar. ar_RequestID ar = p) reqs = Some r\<close> True Some
          by (simp add: AssignAccommodation_def)
        have one: "no_double_booking (snd (AssignAccommodation p accs reqs))"
          using approve_request_no_double_booking [OF pk inv r free] by (simp add: res)
        have two: "\<forall>r' \<in> set reqs. \<forall>r2 \<in> set reqs.
                     ar_RequestID r' = p \<and> ar_RequestID r2 \<noteq> p
                   \<and> ar_Status r2 = Approved
                   \<and> ar_AssignedAccommodationID r2 = Some (a_AccommodationID a)
                   \<longrightarrow> \<not> ranges_overlap (ar_CheckInDate r') (ar_CheckOutDate r')
                                          (ar_CheckInDate r2) (ar_CheckOutDate r2)"
        proof (intro ballI impI)
          fix r' r2
          assume m: "r' \<in> set reqs" "r2 \<in> set reqs"
            and h: "ar_RequestID r' = p \<and> ar_RequestID r2 \<noteq> p
                   \<and> ar_Status r2 = Approved
                   \<and> ar_AssignedAccommodationID r2 = Some (a_AccommodationID a)"
          have "r' = r" using request_id_unique [OF pk m(1) r(1)] h r(2) by simp
          with free m(2) h show "\<not> ranges_overlap (ar_CheckInDate r') (ar_CheckOutDate r')
                                          (ar_CheckInDate r2) (ar_CheckOutDate r2)"
            unfolding occupied_def ranges_overlap_def by auto
        qed
        from one two seq show ?thesis by (simp add: res)
      qed
    qed
  qed
qed

theorem AssignAccommodation_never_double_books_witness:
  "distinct (map ar_RequestID sample_requests)
   \<and> no_double_booking sample_requests
   \<and> fst (AssignAccommodation 2 sample_accommodations sample_requests)
       = (True, Accommodation_assigned 3 2)
   \<and> no_double_booking (snd (AssignAccommodation 2 sample_accommodations sample_requests))
   \<and> no_double_booking (process_requests [2, 1, 2] sample_accommodations sample_requests)
   \<and> \<not> ranges_overlap 16 17 10 16"
proof -
  have pk: "distinct (map ar_RequestID sample_requests)"
    by (simp add: sample_requests_def)
  have inv: "no_double_booking sample_requests"
    by (simp add: sample_requests_def no_double_booking_def)
  have res: "fst (AssignAccommodation 2 sample_accommodations sample_requests)
       = (True, Accommodation_assigned 3 2)"
    by (simp add: AssignAccommodation_def select_candidate_def candidate_def occupied_def
        sample_requests_def sample_accommodations_def)
  note t = AssignAccommodation_never_double_books [OF pk inv, of 2 sample_accommodations "[2, 1, 2]"]
  from t res have "\<forall>r \<in> set sample_requests. \<forall>r2 \<in> set sample_requests.
                   ar_RequestID r = 2 \<and> ar_RequestID r2 \<noteq> 2
                 \<and> ar_Status r2 = Approved \<and> ar_AssignedAccommodationID r2 = Some 3
                 \<longrightarrow> \<not> ranges_overlap (ar_CheckInDate r) (ar_CheckOutDate r)
                                        (ar_CheckInDate r2) (ar_CheckOutDate r2)"
    by blast
  then have "\<not> ranges_overlap 16 17 10 16"
    by (simp add: sample_requests_def)
  with pk inv res t show ?thesis by blast
qed

lemma occupied_set_cong:
  "set reqs' = set reqs \<Longrightarrow> occupied reqs' p ci co aid = occupied reqs p ci co aid"
  by (simp add: occupied_def)

lemma candidate_set_cong:
  assumes "set reqs' = set reqs"
  shows "candidate reqs' p ci co n a = candidate reqs p ci co n a"
proof -
  have "occupied reqs' p ci co (a_AccommodationID a) = occupied reqs p ci co (a_AccommodationID a)"
    using assms by (rule occupied_set_cong)
  then show ?thesis by (simp add: candidate_def)
qed

lemma select_candidate_set_cong:
  "set reqs' = set reqs \<Longrightarrow>
     select_candidate accs reqs' p ci co n = select_candidate accs reqs p ci co n"
proof -
  assume "set reqs' = set reqs"
  then have "candidate reqs' p ci co n = candidate reqs p ci co n"
    by (intro ext) (rule candidate_set_cong)
  then show ?thesis by (simp add: select_candidate_def)
qed

lemma find_by_key:
  assumes "distinct (map ar_RequestID reqs)" "r \<in> set reqs" "ar_RequestID r = p"
  shows "find (\<lambda>ar. ar_RequestID ar = p) reqs = Some r"
proof (cases "find (\<lambda>ar. ar_RequestID ar = p) reqs")
  case None
  with assms(2,3) show ?thesis by (auto simp: find_None_iff)
next
  case (Some x)
  from find_request_id [OF Some] request_id_unique [OF assms(1) _ assms(2)] assms(3) Some
  show ?thesis by auto
qed

lemma approve_request_rows:
  "\<forall>x \<in> set (approve_request p i reqs).
     ar_RequestID x = p \<longrightarrow> ar_Status x = Approved \<and> ar_AssignedAccommodationID x = Some i"
proof
  fix x assume "x \<in> set (approve_request p i reqs)"
  then obtain y where "y \<in> set reqs"
    and "x = (if ar_RequestID y = p
              then y\<lparr>ar_Status := Approved, ar_AssignedAccommodationID := Some i,
                     ar_AssignmentNotes := Some (Automatically_assigned i)\<rparr>
              else y)"
    unfolding approve_request_def set_map by (rule imageE)
  then show "ar_RequestID x = p \<longrightarrow> ar_Status x = Approved \<and> ar_AssignedAccommodationID x = Some i"
    by (cases "ar_RequestID y = p") simp_all
qed

lemma select_candidate_smallest:
  assumes "select_candidate accs reqs p ci co n = Some a"
  shows "smallest_candidate reqs p ci co n accs a"
  unfolding smallest_candidate_def
  using select_candidate_Some [OF assms] by simp

lemma smallest_candidate_perm:
  "set accs' = set accs \<Longrightarrow>
     smallest_candidate reqs p ci co n accs' a = smallest_candidate reqs p ci co n accs a"
  by (simp add: smallest_candidate_def)

lemma insort_key_smallest:
  "\<forall>x \<in> set ys. f a \<le> f x \<Longrightarrow> insort_key f a ys = a # ys"
  by (cases ys) auto

text \<open>
  Every smallest candidate is the one the query returns under some order of the
  rows: the query as written does not decide between candidates of equal capacity.
\<close>

lemma smallest_candidate_selected_in_some_row_order:
  assumes "smallest_candidate reqs p ci co n accs a"
  shows "\<exists>accs'. mset accs' = mset accs \<and> select_candidate accs' reqs p ci co n = Some a"
proof -
  let ?accs' = "a # remove1 a accs"
  let ?c = "candidate reqs p ci co n"
  from assms have m: "a \<in> set accs" and c: "?c a"
    and le: "\<forall>b \<in> set accs. ?c b \<longrightarrow> a_Capacity a \<le> a_Capacity b"
    by (simp_all add: smallest_candidate_def)
  from m have perm: "mset ?accs' = mset accs" by simp
  have "\<forall>x \<in> set (sort_key a_Capacity (filter ?c (remove1 a accs))). a_Capacity a \<le> a_Capacity x"
    using le by (auto dest: notin_set_remove1)
  then have "sort_key a_Capacity (filter ?c ?accs')
      = a # sort_key a_Capacity (filter ?c (remove1 a accs))"
    using c by (simp add: insort_key_smallest)
  then have "select_candidate ?accs' reqs p ci co n = Some a"
    by (simp add: select_candidate_def)
  with perm show ?thesis by blast
qed

text \<open>
  Claim C5, as amended. For a Pending request the procedure evaluates the candidate
  query at the request's own dates and head-count: it approves the request into an
  accommodation that passes the capacity, availability and overlap filters and has the
  smallest capacity among those that do, or rejects it when none passes. The query
  orders by capacity alone, so which of several smallest candidates is written follows
  the row order; whether the request is approved or rejected, and the capacity of the
  accommodation written, are the same for every order of the accommodation rows and of
  the request rows.
\<close>

theorem AssignAccommodation_smallest_capacity_any_row_order:
  assumes pk: "distinct (map ar_RequestID reqs)"
    and r: "r \<in> set reqs" "ar_RequestID r = p" "ar_Status r = Pending"
    and perm: "mset accs' = mset accs" "mset reqs' = mset reqs"
  shows "(\<exists>a a'.
            smallest_candidate reqs p (ar_CheckInDate r) (ar_CheckOutDate r) (ar_NumberOfPeople r) accs a
          \<and> smallest_candidate reqs p (ar_CheckInDate r) (ar_CheckOutDate r) (ar_NumberOfPeople r) accs a'
          \<and> a_Capacity a' = a_Capacity a
          \<and> AssignAccommodation p accs reqs
              = ((True, Accommodation_assigned (a_AccommodationID a) p),
                 approve_request p (a_AccommodationID a) reqs)
          \<and> (\<forall>x \<in> set (snd (AssignAccommodation p accs reqs)).
                ar_RequestID x = p
                \<longrightarrow> ar_Status x = Approved
                  \<and> ar_AssignedAccommodationID x = Some (a_AccommodationID a))
          \<and> fst (AssignAccommodation p accs' reqs')
              = (True, Accommodation_assigned (a_AccommodationID a') p)
          \<and> mset (snd (AssignAccommodation p accs' reqs'))
              = mset (approve_request p (a_AccommodationID a') reqs))
       \<or> ((\<forall>b \<in> set accs.
              \<not> candidate reqs p (ar_CheckInDate r) (ar_CheckOutDate r) (ar_NumberOfPeople r) b)
          \<and> AssignAccommodation p accs reqs
              = ((False, No_suitable_accommodation_found p), reject_request p reqs)
          \<and> fst (AssignAccommodation p accs' reqs') = (False, No_suitable_accommodation_found p)
          \<and> mset (snd (AssignAccommodation p accs' reqs')) = mset (reject_request p reqs))"
proof -
  let ?ci = "ar_CheckInDate r" and ?co = "ar_CheckOutDate r" and ?n = "ar_NumberOfPeople r"
  have sa: "set accs' = set accs" using perm(1) by (rule mset_eq_setD)
  have sr: "set reqs' = set reqs" using perm(2) by (rule mset_eq_setD)
  have "mset (map ar_RequestID reqs') = mset (map ar_RequestID reqs)"
    using perm(2) by simp
  from mset_eq_imp_distinct_iff [OF this] pk
  have pk': "distinct (map ar_RequestID reqs')" by blast
  have f: "find (\<lambda>ar. ar_RequestID ar = p) reqs = Some r"
    using find_by_key [OF pk r(1,2)] .
  have f': "find (\<lambda>ar. ar_RequestID ar = p) reqs' = Some r"
    using find_by_key [OF pk' _ r(2)] r(1) sr by simp
  have sel': "select_candidate accs' reqs' p ?ci ?co ?n = select_candidate accs' reqs p ?ci ?co ?n"
    using sr by (rule select_candidate_set_cong)
  have ma: "mset (approve_request p i reqs') = mset (approve_request p i reqs)" for i
    using perm(2) by (simp add: approve_request_def)
  have mr: "mset (reject_request p reqs') = mset (reject_request p reqs)"
    using perm(2) by (simp add: reject_request_def)
  show ?thesis
  proof (cases "select_candidate accs reqs p ?ci ?co ?n")
    case None
    then have none: "\<forall>b \<in> set accs. \<not> candidate reqs p ?ci ?co ?n b"
      by (simp add: select_candidate_None)
    then have "select_candidate accs' reqs p ?ci ?co ?n = None"
      by (simp add: select_candidate_None sa)
    then have res': "AssignAccommodation p accs' reqs'
        = ((False, No_suitable_accommodation_found p), reject_request p reqs')"
      using f' r(3) sel' by (simp add: AssignAccommodation_def)
    have res: "AssignAccommodation p accs reqs
        = ((False, No_suitable_accommodation_found p), reject_request p reqs)"
      using f r(3) None by (simp add: AssignAccommodation_def)
    from none res res' mr show ?thesis by simp
  next
    case (Some a)
    have sm: "smallest_candidate reqs p ?ci ?co ?n accs a"
      using Some by (rule select_candidate_smallest)
    then have "\<not> (\<forall>b \<in> set accs'. \<not> candidate reqs p ?ci ?co ?n b)"
      unfolding smallest_candidate_def sa by blast
    then have "select_candidate accs' reqs p ?ci ?co ?n \<noteq> None"
      by (simp add: select_candidate_None)
    then obtain a' where Some': "select_candidate accs' reqs p ?ci ?co ?n = Some a'"
      by (cases "select_candidate accs' reqs p ?ci ?co ?n") simp_all
    have sm': "smallest_candidate reqs p ?ci ?co ?n accs a'"
      using select_candidate_smallest [OF Some'] by (simp add: smallest_candidate_perm [OF sa])
    have "a_Capacity a \<le> a_Capacity a'" "a_Capacity a' \<le> a_Capacity a"
      using sm sm' unfolding smallest_candidate_def by blast+
    then have cap: "a_Capacity a' = a_Capacity a" by simp
    have res: "AssignAccommodation p accs reqs
        = ((True, Accommodation_assigned (a_AccommodationID a) p),
           approve_request p (a_AccommodationID a) reqs)"
      using f r(3) Some by (simp add: AssignAccommodation_def)
    have res': "AssignAccommodation p accs' reqs'
        = ((True, Accommodation_assigned (a_AccommodationID a') p),
           approve_request p (a_AccommodationID a') reqs')"
      using f' r(3) sel' Some' by (simp add: AssignAccommodation_def)
    have rows: "\<forall>x \<in> set (snd (AssignAccommodation p accs reqs)).
                ar_RequestID x = p
                \<longrightarrow> ar_Status x = Approved
                  \<and> ar_AssignedAccommodationID x = Some (a_AccommodationID a)"
      using approve_request_rows [of p "a_AccommodationID a" reqs] by (simp add: res)
    have "smallest_candidate reqs p ?ci ?co ?n accs a
          \<and> smallest_candidate reqs p ?ci ?co ?n accs a'
          \<and> a_Capacity a' = a_Capacity a
          \<and> AssignAccommodation p accs reqs
              = ((True, Accommodation_assigned (a_AccommodationID a) p),
                 approve_request p (a_AccommodationID a) reqs)
          \<and> (\<forall>x \<in> set (snd (AssignAccommodation p accs reqs)).
                ar_RequestID x = p
                \<longrightarrow> ar_Status x = Approved
                  \<and> ar_AssignedAccommodationID x = Some (a_AccommodationID a))
          \<and> fst (AssignAccommodation p accs' reqs')
              = (True, Accommodation_assigned (a_AccommodationID a') p)
          \<and> mset (snd (AssignAccommodation p accs' reqs'))
              = mset (approve_request p (a_AccommodationID a') reqs)"
      using sm sm' cap res rows by (simp add: res' ma)
    then show ?thesis by blast
  qed
qed

theorem AssignAccommodation_smallest_capacity_any_row_order_witness:
  "distinct (map ar_RequestID sample_requests)
   \<and> sample_requests ! 1 \<in> set sample_requests
   \<and> ar_RequestID (sample_requests ! 1) = 2
   \<and> ar_Status (sample_requests ! 1) = Pending
   \<and> mset (rev sample_accommodations) = mset sample_accommodations
   \<and> mset (rev sample_requests) = mset sample_requests
   \<and> AssignAccommodation 2 sample_accommodations sample_requests
       = ((True, Accommodation_assigned 3 2), approve_request 2 3 sample_requests)
   \<and> smallest_candidate sample_requests 2 16 17 1 sample_accommodations (sample_accommodations ! 2)
   \<and> fst (AssignAccommodation 2 (rev sample_accommodations) (rev sample_requests))
       = (True, Accommodation_assigned 3 2)
   \<and> mset (snd (AssignAccommodation 2 (rev sample_accommodations) (rev sample_requests)))
       = mset (approve_request 2 3 sample_requests)"
proof -
  have pk: "distinct (map ar_RequestID sample_requests)"
    by (simp add: sample_requests_def)
  have r: "sample_requests ! 1 \<in> set sample_requests"
    "ar_RequestID (sample_requests ! 1) = 2" "ar_Status (sample_requests ! 1) = Pending"
    by (simp_all add: sample_requests_def)
  have d: "ar_CheckInDate (sample_requests ! 1) = 16" "ar_CheckOutDate (sample_requests ! 1) = 17"
    "ar_NumberOfPeople (sample_requests ! 1) = 1"
    by (simp_all add: sample_requests_def)
  have perm: "mset (rev sample_accommodations) = mset sample_accommodations"
    "mset (rev sample_requests) = mset sample_requests"
    by simp_all
  have res: "AssignAccommodation 2 sample_accommodations sample_requests
       = ((True, Accommodation_assigned 3 2), approve_request 2 3 sample_requests)"
    by (simp add: AssignAccommodation_def select_candidate_def candidate_def occupied_def
        sample_requests_def sample_accommodations_def)
  have c1: "\<not> candidate sample_requests 2 16 17 1 (sample_accommodations ! 0)"
    and c2: "\<not> candidate sample_requests 2 16 17 1 (sample_accommodations ! 1)"
    and c3: "candidate sample_requests 2 16 17 1 (sample_accommodations ! 2)"
    by (simp_all add: candidate_def occupied_def sample_requests_def sample_accommodations_def)
  have rows: "set sample_accommodations
      = {sample_accommodations ! 0, sample_accommodations ! 1, sample_accommodations ! 2}"
    by (simp add: sample_accommodations_def)
  have only: "b = sample_accommodations ! 2"
    if "smallest_candidate sample_requests 2 16 17 1 sample_accommodations b" for b
  proof -
    from that have "b \<in> set sample_accommodations" "candidate sample_requests 2 16 17 1 b"
      by (simp_all add: smallest_candidate_def)
    with rows c1 c2 show ?thesis by auto
  qed
  have sm: "smallest_candidate sample_requests 2 16 17 1 sample_accommodations
      (sample_accommodations ! 2)"
    unfolding smallest_candidate_def rows using c1 c2 c3 by simp
  have i3: "a_AccommodationID (sample_accommodations ! 2) = 3"
    by (simp add: sample_accommodations_def)
  note t = AssignAccommodation_smallest_capacity_any_row_order [OF pk r perm, unfolded d]
  have "fst (AssignAccommodation 2 (rev sample_accommodations) (rev sample_requests))
       = (True, Accommodation_assigned 3 2)
   \<and> mset (snd (AssignAccommodation 2 (rev sample_accommodations) (rev sample_requests)))
       = mset (approve_request 2 3 sample_requests)"
    using t
  proof (elim disjE exE conjE)
    fix a a'
    assume "smallest_candidate sample_requests 2 16 17 1 sample_accommodations a'"
      and f: "fst (AssignAccommodation 2 (rev sample_accommodations) (rev sample_requests))
              = (True, Accommodation_assigned (a_AccommodationID a') 2)"
      and m: "mset (snd (AssignAccommodation 2 (rev sample_accommodations) (rev sample_requests)))
              = mset (approve_request 2 (a_AccommodationID a') sample_requests)"
    then have "a' = sample_accommodations ! 2" using only by simp
    with f m i3 show ?thesis by simp
  next
    assume "AssignAccommodation 2 sample_accommodations sample_requests
              = ((False, No_suitable_accommodation_found 2), reject_request 2 sample_requests)"
    with res show ?thesis by simp
  qed
  with pk r perm res sm show ?thesis by simp
qed

text \<open>
  The claim as first stated fails. East Wing and West Wing have the same capacity and
  both pass the filters for the request, so both are smallest candidates on the same
  table and the query names no key to choose between them: with the rows in one order
  the procedure writes accommodation 1, with the same rows in the other order
  accommodation 2.
\<close>

theorem AssignAccommodation_tie_counterexample:
  "mset [twin_b, twin_a] = mset [twin_a, twin_b]
   \<and> smallest_candidate twin_request 1 15 18 2 [twin_a, twin_b] twin_a
   \<and> smallest_candidate twin_request 1 15 18 2 [twin_a, twin_b] twin_b
   \<and> a_AccommodationID twin_a \<noteq> a_AccommodationID twin_b
   \<and> fst (AssignAccommodation 1 [twin_a, twin_b] twin_request) = (True, Accommodation_assigned 1 1)
   \<and> fst (AssignAccommodation 1 [twin_b, twin_a] twin_request) = (True, Accommodation_assigned 2 1)"
  by (simp add: AssignAccommodation_def select_candidate_def smallest_candidate_def
      candidate_def occupied_def twin_a_def twin_b_def twin_request_def add.commute)

section \<open>Payment reconciliation: helper lemmas\<close>

lemma validate_update_None_iff:
  "validate_payment_relation_on_update OLD NEW = None \<longleftrightarrow> payment_xor NEW"
  by (auto simp: validate_payment_relation_on_update_def payment_xor_def)

lemma validate_insert_None_iff:
  "validate_payment_relation_on_insert NEW = None \<longleftrightarrow> payment_xor NEW"
  by (auto simp: validate_payment_relation_on_insert_def payment_xor_def)

lemma update_Payments_rows_xor:
  assumes "update_Payments_rows wh st rows regs = Inr (rows', regs')"
    and "\<forall>p \<in> set rows. payment_xor p"
  shows "\<forall>p \<in> set rows'. payment_xor p"
  using assms
proof (induction rows arbitrary: rows' regs regs')
  case Nil
  then show ?case by simp
next
  case (Cons OLD rows)
  show ?case
  proof (cases "wh OLD")
    case True
    with Cons.prems(1) have v: "validate_payment_relation_on_update OLD (st OLD) = None"
      by (auto split: option.splits)
    with True Cons.prems(1) obtain rows'' where
      rec: "update_Payments_rows wh st rows (ConfirmRegistrationOnPayment OLD (st OLD) regs)
              = Inr (rows'', regs')" and r: "rows' = st OLD # rows''"
      by (auto split: sum.splits)
    have "\<forall>p \<in> set rows''. payment_xor p"
      using Cons.IH [OF rec] Cons.prems(2) by simp
    moreover have "payment_xor (st OLD)" using v by (simp add: validate_update_None_iff)
    ultimately show ?thesis by (simp add: r)
  next
    case False
    with Cons.prems(1) obtain rows'' where
      rec: "update_Payments_rows wh st rows regs = Inr (rows'', regs')" and r: "rows' = OLD # rows''"
      by (auto split: sum.splits)
    have "\<forall>p \<in> set rows''. payment_xor p"
      using Cons.IH [OF rec] Cons.prems(2) by simp
    with Cons.prems(2) show ?thesis by (simp add: r)
  qed
qed

lemma update_Payments_rows_rejects:
  assumes "p \<in> set rows" "wh p" "\<not> payment_xor (st p)"
  shows "\<exists>e. update_Payments_rows wh st rows regs = Inl e"
  using assms
proof (induction rows arbitrary: regs)
  case Nil
  then show ?case by simp
next
  case (Cons OLD rows)
  show ?case
  proof (cases "p = OLD")
    case True
    with Cons.prems have "validate_payment_relation_on_update OLD (st OLD) \<noteq> None"
      by (simp add: validate_update_None_iff)
    with True Cons.prems(2) show ?thesis by auto
  next
    case False
    with Cons.prems have "p \<in> set rows" by simp
    from Cons.IH [OF this Cons.prems(2,3)]
    have "\<exists>e. update_Payments_rows wh st rows regs' = Inl e" for regs' .
    then show ?thesis
      by (auto split: option.splits sum.splits) (metis Inl_Inr_False)+
  qed
qed

lemma execute_payment_statement_xor:
  assumes "payments_xor db"
  shows "payments_xor (snd (execute_payment_statement s db))"
proof (cases s)
  case (INSERT_Payments row)
  show ?thesis
  proof (cases "insert_Payments row db")
    case (Inl e)
    with INSERT_Payments assms show ?thesis by simp
  next
    case (Inr res)
    then have "payment_xor (row\<lparr>p_PaymentID := next_id (map p_PaymentID (Payments db))\<rparr>)"
      by (auto simp: insert_Payments_def Let_def validate_insert_None_iff split: option.splits)
    with Inr INSERT_Payments assms show ?thesis
      by (auto simp: insert_Payments_def Let_def payments_xor_def split: option.splits)
  qed
next
  case (UPDATE_Payments wh st)
  show ?thesis
  proof (cases "update_Payments_rows wh st (Payments db) (Registrations db)")
    case (Inl e)
    with UPDATE_Payments assms show ?thesis by (simp add: update_Payments_def)
  next
    case (Inr res)
    obtain rows' regs' where res: "res = (rows', regs')" by (cases res)
    have "\<forall>p \<in> set rows'. payment_xor p"
      using update_Payments_rows_xor [OF Inr [unfolded res]] assms
      by (simp add: payments_xor_def)
    with Inr res UPDATE_Payments show ?thesis
      by (simp add: update_Payments_def payments_xor_def)
  qed
qed

lemma run_payment_statements_xor:
  "payments_xor db \<Longrightarrow> payments_xor (run_payment_statements sts db)"
  unfolding run_payment_statements_def
  by (induction sts arbitrary: db) (simp_all add: execute_payment_statement_xor)





section \<open>Payment reconciliation: the claims\<close>



text \<open>
  Claim C3. Every payment row has exactly one of \<^verbatim>\<open>RelatedRegistrationID\<close> and
  \<^verbatim>\<open>RelatedContractID\<close> set, in every state reached by \<^verbatim>\<open>INSERT\<close> and
  \<^verbatim>\<open>UPDATE\<close> statements on Payments from a state where that holds (the empty table
  is one). An insert of a row with both or neither set is refused; an update that would
  put some selected row into that shape is refused; a refused statement leaves the
  database as it was.
\<close>

theorem payment_relation_xor_invariant:
  assumes "payments_xor db"
  shows "payments_xor (run_payment_statements sts db)
       \<and> (\<not> payment_xor row
            \<longrightarrow> fst (execute_payment_statement (INSERT_Payments row) db) \<noteq> None
              \<and> snd (execute_payment_statement (INSERT_Payments row) db) = db)
       \<and> (\<forall>p \<in> set (Payments db). wh p \<and> \<not> payment_xor (st p)
            \<longrightarrow> fst (execute_payment_statement (UPDATE_Payments wh st) db) \<noteq> None
              \<and> snd (execute_payment_statement (UPDATE_Payments wh st) db) = db)"
proof -
  have ins: "fst (execute_payment_statement (INSERT_Payments row) db) \<noteq> None
              \<and> snd (execute_payment_statement (INSERT_Payments row) db) = db"
    if "\<not> payment_xor row"
  proof -
    from that have "\<not> payment_xor (row\<lparr>p_PaymentID := next_id (map p_PaymentID (Payments db))\<rparr>)"
      by (simp add: payment_xor_def)
    then obtain e where
      "validate_payment_relation_on_insert
         (row\<lparr>p_PaymentID := next_id (map p_PaymentID (Payments db))\<rparr>) = Some e"
      using validate_insert_None_iff by fastforce
    then show ?thesis by (simp add: insert_Payments_def Let_def)
  qed
  have upd: "fst (execute_payment_statement (UPDATE_Payments wh st) db) \<noteq> None
              \<and> snd (execute_payment_statement (UPDATE_Payments wh st) db) = db"
    if "p \<in> set (Payments db)" "wh p" "\<not> payment_xor (st p)" for p
  proof -
    from update_Payments_rows_rejects [of p "Payments db" wh st "Registrations db"] that
    obtain e where "update_Payments_rows wh st (Payments db) (Registrations db) = Inl e"
      by blast
    then show ?thesis by (simp add: update_Payments_def)
  qed
  from run_payment_statements_xor [OF assms] ins upd show ?thesis by blast
qed

theorem payment_relation_xor_invariant_witness:
  "payments_xor sample_db
   \<and> payments_xor (run_payment_statements
        [INSERT_Payments sponsorship_payment,
         INSERT_Payments unrelated_payment,
         UPDATE_Payments (\<lambda>p. p_PaymentID p = 1) (\<lambda>p. p\<lparr>p_RelatedContractID := Some 4\<rparr>),
         UPDATE_Payments (\<lambda>p. p_PaymentID p = 1) (\<lambda>p. p\<lparr>p_Status := P_completed\<rparr>)]
        sample_db)
   \<and> map p_PaymentID (Payments (run_payment_statements
        [INSERT_Payments sponsorship_payment, INSERT_Payments unrelated_payment] sample_db))
      = [1, 2, 3]
   \<and> \<not> payment_xor unrelated_payment
   \<and> execute_payment_statement (INSERT_Payments unrelated_payment) sample_db
      = (Some Payment_must_be_related, sample_db)
   \<and> Payments sample_db ! 0 \<in> set (Payments sample_db)
   \<and> p_PaymentID (Payments sample_db ! 0) = 1
   \<and> \<not> payment_xor ((Payments sample_db ! 0)\<lparr>p_RelatedContractID := Some 4\<rparr>)
   \<and> execute_payment_statement
        (UPDATE_Payments (\<lambda>p. p_PaymentID p = 1) (\<lambda>p. p\<lparr>p_RelatedContractID := Some 4\<rparr>))
        sample_db
      = (Some Payment_cannot_be_related_to_both, sample_db)"
proof -
  have h: "payments_xor sample_db"
    by (simp add: payments_xor_def payment_xor_def sample_db_def)
  note t = payment_relation_xor_invariant [OF h,
      of "[INSERT_Payments sponsorship_payment,
         INSERT_Payments unrelated_payment,
         UPDATE_Payments (\<lambda>p. p_PaymentID p = 1) (\<lambda>p. p\<lparr>p_RelatedContractID := Some 4\<rparr>),
         UPDATE_Payments (\<lambda>p. p_PaymentID p = 1) (\<lambda>p. p\<lparr>p_Status := P_completed\<rparr>)]"
         unrelated_payment "\<lambda>p. p_PaymentID p = 1" "\<lambda>p. p\<lparr>p_RelatedContractID := Some 4\<rparr>"]
  have bad: "\<not> payment_xor unrelated_payment"
    by (simp add: payment_xor_def unrelated_payment_def)
  have row: "Payments sample_db ! 0 \<in> set (Payments sample_db)"
    "p_PaymentID (Payments sample_db ! 0) = 1"
    "\<not> payment_xor ((Payments sample_db ! 0)\<lparr>p_RelatedContractID := Some 4\<rparr>)"
    by (simp_all add: payment_xor_def sample_db_def)
  have ids: "map p_PaymentID (Payments (run_payment_statements
        [INSERT_Payments sponsorship_payment, INSERT_Payments unrelated_payment] sample_db))
      = [1, 2, 3]"
    by (simp add: run_payment_statements_def insert_Payments_def next_id_def
        validate_payment_relation_on_insert_def sponsorship_payment_def unrelated_payment_def
        sample_db_def)
  have e1: "fst (execute_payment_statement (INSERT_Payments unrelated_payment) sample_db)
      = Some Payment_must_be_related"
    by (simp add: insert_Payments_def validate_payment_relation_on_insert_def
        unrelated_payment_def)
  have e2: "fst (execute_payment_statement
        (UPDATE_Payments (\<lambda>p. p_PaymentID p = 1) (\<lambda>p. p\<lparr>p_RelatedContractID := Some 4\<rparr>))
        sample_db) = Some Payment_cannot_be_related_to_both"
    by (simp add: update_Payments_def validate_payment_relation_on_update_def sample_db_def)
  from t bad have s1: "snd (execute_payment_statement (INSERT_Payments unrelated_payment) sample_db)
      = sample_db" by blast
  from t row have s2: "snd (execute_payment_statement
        (UPDATE_Payments (\<lambda>p. p_PaymentID p = 1) (\<lambda>p. p\<lparr>p_RelatedContractID := Some 4\<rparr>))
        sample_db) = sample_db" by blast
  from t have inv: "payments_xor (run_payment_statements
        [INSERT_Payments sponsorship_payment,
         INSERT_Payments unrelated_payment,
         UPDATE_Payments (\<lambda>p. p_PaymentID p = 1) (\<lambda>p. p\<lparr>p_RelatedContractID := Some 4\<rparr>),
         UPDATE_Payments (\<lambda>p. p_PaymentID p = 1) (\<lambda>p. p\<lparr>p_Status := P_completed\<rparr>)]
        sample_db)" by blast
  from h inv ids bad row e1 e2 s1 s2 show ?thesis
    by (simp add: prod_eq_iff)
qed




section \<open>Registration: helper lemmas\<close>

lemma insert_Registrations_Inr:
  assumes "insert_Registrations row db = Inr (i, db')"
  shows "Registrations db' =
           Registrations db @ [row\<lparr>r_RegistrationID := next_id (map r_RegistrationID (Registrations db))\<rparr>]"
    and "\<forall>r \<in> set (Registrations db). \<not> (r_UserID r = r_UserID row \<and> r_EventID r = r_EventID row)"
  using assms by (auto simp: insert_Registrations_def Let_def split: if_splits)

lemma insert_Registrations_unique:
  assumes "insert_Registrations row db = Inr (i, db')" and "unique_user_event db"
  shows "unique_user_event db'"
  using insert_Registrations_Inr [OF assms(1)] assms(2)
  by (auto simp: unique_user_event_def)

lemma post_registration_effect:
  "snd (post_registration now u e s db) = db
   \<or> (\<exists>uid eid i. u = Some uid \<and> e = Some eid
        \<and> insert_Registrations
             \<lparr>r_RegistrationID = 0, r_UserID = uid, r_EventID = eid,
              r_TeamID = None, r_RegistrationDate = now, r_Status = pending,
              r_PaymentStatus = PS_pending,
              r_SpecialRequirements = or_null s\<rparr> db
            = Inr (i, snd (post_registration now u e s db)))"
  by (auto simp: post_registration_def split: option.splits sum.splits)

lemma post_api_registrations_effect:
  "snd (post_api_registrations now u e db) = db
   \<or> (\<exists>uid eid i. u = Some uid \<and> e = Some eid
        \<and> insert_Registrations
             \<lparr>r_RegistrationID = 0, r_UserID = uid, r_EventID = eid,
              r_TeamID = None, r_RegistrationDate = now, r_Status = pending,
              r_PaymentStatus = PS_pending,
              r_SpecialRequirements = None\<rparr> db
            = Inr (i, snd (post_api_registrations now u e db)))"
  by (auto simp: post_api_registrations_def split: option.splits sum.splits)

lemma createRegistration_unique_step:
  assumes "unique_user_event db"
  shows "unique_user_event (snd (createRegistration c db))"
proof (cases c)
  case (POST_registration now u e s)
  with post_registration_effect [of now u e s db] assms insert_Registrations_unique
  show ?thesis by auto
next
  case (POST_api_registrations now u e)
  with post_api_registrations_effect [of now u e db] assms insert_Registrations_unique
  show ?thesis by auto
qed

lemma insert_Registrations_frame:
  assumes "insert_Registrations row db = Inr (i, db')"
  shows "Users db' = Users db" and "Events db' = Events db"
    and "r_UserID row \<in> set (Users db)" and "r_EventID row \<in> set (map e_EventID (Events db))"
  using assms by (auto simp: insert_Registrations_def Let_def split: if_splits)

lemma insert_Registrations_reference:
  assumes "insert_Registrations row db = Inr (i, db')" and "registrations_reference db"
  shows "registrations_reference db'"
  using insert_Registrations_Inr(1) [OF assms(1)] insert_Registrations_frame [OF assms(1)] assms(2)
  by (auto simp: registrations_reference_def)

lemma createRegistration_reference_step:
  assumes "registrations_reference db"
  shows "registrations_reference (snd (createRegistration c db))"
proof (cases c)
  case (POST_registration now u e s)
  with post_registration_effect [of now u e s db] assms insert_Registrations_reference
  show ?thesis by auto
next
  case (POST_api_registrations now u e)
  with post_api_registrations_effect [of now u e db] assms insert_Registrations_reference
  show ?thesis by auto
qed

lemma run_create_calls_reference:
  "registrations_reference db \<Longrightarrow> registrations_reference (run_create_calls calls db)"
  unfolding run_create_calls_def
  by (induction calls arbitrary: db) (simp_all add: createRegistration_reference_step)

lemma run_create_calls_unique:
  "unique_user_event db \<Longrightarrow> unique_user_event (run_create_calls calls db)"
  unfolding run_create_calls_def
  by (induction calls arbitrary: db) (simp_all add: createRegistration_unique_step)

text \<open>
  Whatever the event's fee and deadline are, a registration that either route inserts
  is pending with payment status pending.
\<close>

lemma created_registration_is_pending_pending:
  assumes "snd (createRegistration c db) \<noteq> db"
  shows "\<exists>row. Registrations (snd (createRegistration c db)) = Registrations db @ [row]
           \<and> r_Status row = pending \<and> r_PaymentStatus row = PS_pending"
proof (cases c)
  case (POST_registration now u e s)
  with post_registration_effect [of now u e s db] assms
  show ?thesis by (auto dest!: insert_Registrations_Inr(1))
next
  case (POST_api_registrations now u e)
  with post_api_registrations_effect [of now u e db] assms
  show ?thesis by (auto dest!: insert_Registrations_Inr(1))
qed

section \<open>Registration: the claims\<close>

text \<open>
  Claim C6. The pair (user, event) stays a key of Registrations along every sequence
  of registration calls through the two routes; and a call for a pair that already
  has a row answers 400 \<^verbatim>\<open>Already registered\<close> and leaves the database as it was.
  The rows of Registrations refer to existing users and events and no key is 0, as
  the foreign keys and \<^verbatim>\<open>AUTO_INCREMENT\<close> guarantee; the calls keep that so.
\<close>

theorem createRegistration_at_most_one_per_user_event:
  assumes "unique_user_event db" and "registrations_reference db"
  shows "unique_user_event (run_create_calls calls db)
       \<and> registrations_reference (run_create_calls calls db)
       \<and> (\<forall>r \<in> set (Registrations db).
            createRegistration (POST_registration now (Some (r_UserID r)) (Some (r_EventID r)) sr) db
              = (Render 400 ''Already registered'', db)
          \<and> createRegistration (POST_api_registrations now (Some (r_UserID r)) (Some (r_EventID r))) db
              = (Json 400 ''Already registered'' None, db))"
proof -
  have dup: "createRegistration (POST_registration now (Some (r_UserID r)) (Some (r_EventID r)) sr) db
              = (Render 400 ''Already registered'', db)
          \<and> createRegistration (POST_api_registrations now (Some (r_UserID r)) (Some (r_EventID r))) db
              = (Json 400 ''Already registered'' None, db)"
    if r: "r \<in> set (Registrations db)" for r
  proof -
    from assms(2) r have u: "r_UserID r \<in> set (Users db)"
      and e: "r_EventID r \<in> set (map e_EventID (Events db))"
      by (simp_all add: registrations_reference_def)
    from assms(2) u e have pos: "0 < r_UserID r" "0 < r_EventID r"
      unfolding registrations_reference_def by (metis gr0I)+
    from u have fu: "filter (\<lambda>x. x = r_UserID r) (Users db) \<noteq> []"
      by (auto simp: filter_empty_conv)
    from e have fe: "filter (\<lambda>x. e_EventID x = r_EventID r) (Events db) \<noteq> []"
      by (auto simp: filter_empty_conv)
    from r have fr: "filter (\<lambda>x. r_EventID x = r_EventID r \<and> r_UserID x = r_UserID r)
                       (Registrations db) \<noteq> []"
      "filter (\<lambda>x. r_UserID x = r_UserID r \<and> r_EventID x = r_EventID r)
                       (Registrations db) \<noteq> []"
      by (auto simp: filter_empty_conv)
    show ?thesis
      using fu fe fr pos by (simp add: post_registration_def post_api_registrations_def)
  qed
  from run_create_calls_unique [OF assms(1)] run_create_calls_reference [OF assms(2)] dup
  show ?thesis by blast
qed

theorem createRegistration_at_most_one_per_user_event_witness:
  "unique_user_event sample_db \<and> registrations_reference sample_db
   \<and> map (\<lambda>r. (r_UserID r, r_EventID r))
       (Registrations (run_create_calls
          [POST_registration 50 (Some 11) (Some 100) None,
           POST_api_registrations 60 (Some 11) (Some 100),
           POST_registration 70 (Some 10) (Some 100) (Some ''late'')] sample_db))
     = [(10, 100), (10, 101), (11, 100)]
   \<and> unique_user_event (run_create_calls
          [POST_registration 50 (Some 11) (Some 100) None,
           POST_api_registrations 60 (Some 11) (Some 100),
           POST_registration 70 (Some 10) (Some 100) (Some ''late'')] sample_db)
   \<and> Registrations sample_db ! 0 \<in> set (Registrations sample_db)
   \<and> createRegistration (POST_registration 70 (Some 10) (Some 100) (Some ''late'')) sample_db
       = (Render 400 ''Already registered'', sample_db)
   \<and> createRegistration (POST_api_registrations 70 (Some 10) (Some 100)) sample_db
       = (Json 400 ''Already registered'' None, sample_db)"
proof -
  have h1: "unique_user_event sample_db"
    by (simp add: unique_user_event_def sample_db_def)
  have h2: "registrations_reference sample_db"
    by (simp add: registrations_reference_def sample_db_def)
  note t = createRegistration_at_most_one_per_user_event [OF h1 h2,
      of "[POST_registration 50 (Some 11) (Some 100) None,
           POST_api_registrations 60 (Some 11) (Some 100),
           POST_registration 70 (Some 10) (Some 100) (Some ''late'')]" 70 "Some ''late''"]
  have r: "Registrations sample_db ! 0 \<in> set (Registrations sample_db)"
    "r_UserID (Registrations sample_db ! 0) = 10" "r_EventID (Registrations sample_db ! 0) = 100"
    by (simp_all add: sample_db_def)
  have run: "map (\<lambda>r. (r_UserID r, r_EventID r))
       (Registrations (run_create_calls
          [POST_registration 50 (Some 11) (Some 100) None,
           POST_api_registrations 60 (Some 11) (Some 100),
           POST_registration 70 (Some 10) (Some 100) (Some ''late'')] sample_db))
     = [(10, 100), (10, 101), (11, 100)]"
    by (simp add: run_create_calls_def post_registration_def post_api_registrations_def
        insert_Registrations_def next_id_def or_null_def sample_db_def)
  from t r have "createRegistration (POST_registration 70 (Some 10) (Some 100) (Some ''late'')) sample_db
       = (Render 400 ''Already registered'', sample_db)
   \<and> createRegistration (POST_api_registrations 70 (Some 10) (Some 100)) sample_db
       = (Json 400 ''Already registered'' None, sample_db)"
    by (metis (no_types, lifting))
  with t h1 h2 r(1) run show ?thesis by blast
qed

text \<open>
  Claim C7. The claim asks for payment status \<^verbatim>\<open>not_required\<close> when the event is
  free. Event 101 of the sample database has fee 0; user 11 registers for it through
  each route, and the row inserted is pending with payment status pending.
\<close>

theorem createRegistration_free_event_gets_payment_pending:
  "e_EventID (Events sample_db ! 1) = 101 \<and> e_Reg_Fee (Events sample_db ! 1) = 0
   \<and> fst (createRegistration (POST_registration 50 (Some 11) (Some 101) None) sample_db)
       = Redirect_registration_success 3
   \<and> Registrations (snd (createRegistration (POST_registration 50 (Some 11) (Some 101) None) sample_db))
       = Registrations sample_db @
         [\<lparr>r_RegistrationID = 3, r_UserID = 11, r_EventID = 101, r_TeamID = None,
           r_RegistrationDate = 50, r_Status = pending, r_PaymentStatus = PS_pending,
           r_SpecialRequirements = None\<rparr>]
   \<and> fst (createRegistration (POST_api_registrations 50 (Some 11) (Some 101)) sample_db)
       = Json 201 ''Registration successful'' None
   \<and> Registrations (snd (createRegistration (POST_api_registrations 50 (Some 11) (Some 101)) sample_db))
       = Registrations sample_db @
         [\<lparr>r_RegistrationID = 3, r_UserID = 11, r_EventID = 101, r_TeamID = None,
           r_RegistrationDate = 50, r_Status = pending, r_PaymentStatus = PS_pending,
           r_SpecialRequirements = None\<rparr>]"
  by (simp add: post_registration_def post_api_registrations_def insert_Registrations_def
      next_id_def or_null_def sample_db_def)

text \<open>
  Claim C8. The claim asks for a refusal after the deadline. Event 100 of the sample
  database closes registration at time 1000; at time 2000 user 11 registers for it
  through each route, and each call succeeds and inserts the row.
\<close>

theorem createRegistration_after_deadline_succeeds:
  "e_EventID (Events sample_db ! 0) = 100
   \<and> e_RegistrationDeadline (Events sample_db ! 0) = Some 1000 \<and> (1000::int) < 2000
   \<and> fst (createRegistration (POST_registration 2000 (Some 11) (Some 100) None) sample_db)
       = Redirect_registration_success 3
   \<and> Registrations (snd (createRegistration (POST_registration 2000 (Some 11) (Some 100) None) sample_db))
       = Registrations sample_db @
         [\<lparr>r_RegistrationID = 3, r_UserID = 11, r_EventID = 100, r_TeamID = None,
           r_RegistrationDate = 2000, r_Status = pending, r_PaymentStatus = PS_pending,
           r_SpecialRequirements = None\<rparr>]
   \<and> fst (createRegistration (POST_api_registrations 2000 (Some 11) (Some 100)) sample_db)
       = Json 201 ''Registration successful'' None
   \<and> Registrations (snd (createRegistration (POST_api_registrations 2000 (Some 11) (Some 100)) sample_db))
       = Registrations sample_db @
         [\<lparr>r_RegistrationID = 3, r_UserID = 11, r_EventID = 100, r_TeamID = None,
           r_RegistrationDate = 2000, r_Status = pending, r_PaymentStatus = PS_pending,
           r_SpecialRequirements = None\<rparr>]"
  by (simp add: post_registration_def post_api_registrations_def insert_Registrations_def
      next_id_def or_null_def sample_db_def)


section \<open>Teams: helper lemmas\<close>

text \<open>
  What the add-member handler does guarantee: at three active members it inserts
  nothing, the leader is told so, and it never takes a team from three or fewer active
  members to more; removing a member never raises a count.
\<close>

lemma post_team_members_full:
  assumes "3 \<le> active_count db tid"
  shows "snd (post_team_members caller tid userId role db) = db"
    and "\<not> not_team_leader caller tid db \<Longrightarrow>
         fst (post_team_members caller tid userId role db)
           = Json 400 ''Team already has maximum allowed members (3)'' None"
  using assms by (simp_all add: post_team_members_def)

lemma insert_TeamMembers_active_count:
  assumes "insert_TeamMembers tid uid role db = Inr db'"
  shows "active_count db' t = (if t = tid then Suc (active_count db t) else active_count db t)"
  using assms by (auto simp: insert_TeamMembers_def active_count_def split: if_splits)

lemma post_team_members_bound:
  assumes "active_count db t \<le> 3"
  shows "active_count (snd (post_team_members caller tid userId role db)) t \<le> 3"
proof (cases "snd (post_team_members caller tid userId role db) = db")
  case True
  with assms show ?thesis by simp
next
  case False
  then obtain uid r where ins: "insert_TeamMembers tid uid r db
        = Inr (snd (post_team_members caller tid userId role db))"
    and c: "\<not> 3 \<le> active_count db tid"
    by (auto simp: post_team_members_def split: if_splits option.splits sum.splits)
  from insert_TeamMembers_active_count [OF ins, of t] c assms show ?thesis by auto
qed

lemma delete_team_member_bound:
  "active_count (snd (delete_team_member caller tid uid db)) t \<le> active_count db t"
proof -
  have "length (filter P (filter Q xs)) \<le> length (filter P xs)" for P Q and xs :: "team_member list"
    by (induction xs) auto
  then show ?thesis
    by (simp add: delete_team_member_def active_count_def)
qed

section \<open>Teams: the claim\<close>



section \<open>The registration-payment route\<close>

text \<open>
  An insert into Payments never touches Registrations, whatever the status of the new
  row: the confirmation trigger is declared \<^verbatim>\<open>AFTER UPDATE\<close> only.
\<close>

lemma insert_Payments_keeps_Registrations:
  assumes "insert_Payments row db = Inr (i, db')"
  shows "Registrations db' = Registrations db"
  using assms by (auto simp: insert_Payments_def Let_def split: option.splits)

text \<open>
  The row the route builds has neither relation set, so the insert trigger refuses it
  for every request: the route writes nothing at all.
\<close>

lemma post_api_payments_registration_writes_nothing:
  "snd (post_api_payments_registration participantId eventId amount paymentMethod db) = db"
  by (auto simp: post_api_payments_registration_def insert_Payments_def Let_def
      validate_payment_relation_on_insert_def split: option.splits)



end
